theory Spec2Isabelle
  imports Main
begin

text \<open>
  A model of the GEDCOM library \<^verbatim>\<open>gedcompy\<close> (\<^verbatim>\<open>gedcom/element.py\<close>,
  \<^verbatim>\<open>gedcom/individual.py\<close>, \<^verbatim>\<open>gedcom/register.py\<close>, \<^verbatim>\<open>gedcom/__init__.py\<close>) and the
  properties of it that are proved. The first half holds the definitions, function by
  function; the second half holds the properties.
\<close>

section \<open>Python values used by the library\<close>

text \<open>
  Exceptions raised by the library are values of type \<open>error\<close>; a fallible operation
  returns \<open>error + 'a\<close> with \<open>Inl\<close> for the raised exception.
\<close>

datatype error =
    IndexError
  | KeyError
  | TypeError
  | ValueError
  | AttributeError
  | UnboundLocalError
  | NotImplementedError
  | Exception

subsection \<open>Strings\<close>

text \<open>
  A Python string is a \<open>string\<close>; a character stands for a code point below 256.
  \<open>is_space\<close> is \<^verbatim>\<open>str.isspace\<close> on that range, which is what \<^verbatim>\<open>str.strip()\<close>
  removes at both ends.
\<close>

definition newline :: char where
  "newline = CHR 0x0A"

definition is_space :: "char \<Rightarrow> bool" where
  "is_space c \<longleftrightarrow>
     c \<in> set [CHR 0x09, CHR 0x0A, CHR 0x0B, CHR 0x0C, CHR 0x0D,
               CHR 0x1C, CHR 0x1D, CHR 0x1E, CHR 0x1F, CHR 0x20, CHR 0x85, CHR 0xA0]"

definition strip :: "string \<Rightarrow> string" where
  "strip s = rev (dropWhile is_space (rev (dropWhile is_space s)))"

definition upper_chars :: string where
  "upper_chars = ''ABCDEFGHIJKLMNOPQRSTUVWXYZ'' @
     [CHR 0xC0, CHR 0xC1, CHR 0xC2, CHR 0xC3, CHR 0xC4, CHR 0xC5, CHR 0xC6, CHR 0xC7,
      CHR 0xC8, CHR 0xC9, CHR 0xCA, CHR 0xCB, CHR 0xCC, CHR 0xCD, CHR 0xCE, CHR 0xCF,
      CHR 0xD0, CHR 0xD1, CHR 0xD2, CHR 0xD3, CHR 0xD4, CHR 0xD5, CHR 0xD6, CHR 0xD8,
      CHR 0xD9, CHR 0xDA, CHR 0xDB, CHR 0xDC, CHR 0xDD, CHR 0xDE]"

definition lower_chars :: string where
  "lower_chars = ''abcdefghijklmnopqrstuvwxyz'' @
     [CHR 0xE0, CHR 0xE1, CHR 0xE2, CHR 0xE3, CHR 0xE4, CHR 0xE5, CHR 0xE6, CHR 0xE7,
      CHR 0xE8, CHR 0xE9, CHR 0xEA, CHR 0xEB, CHR 0xEC, CHR 0xED, CHR 0xEE, CHR 0xEF,
      CHR 0xF0, CHR 0xF1, CHR 0xF2, CHR 0xF3, CHR 0xF4, CHR 0xF5, CHR 0xF6, CHR 0xF8,
      CHR 0xF9, CHR 0xFA, CHR 0xFB, CHR 0xFC, CHR 0xFD, CHR 0xFE]"

definition lower_char :: "char \<Rightarrow> char" where
  "lower_char c = (case map_of (zip upper_chars lower_chars) c of Some d \<Rightarrow> d | None \<Rightarrow> c)"

text \<open>\<^verbatim>\<open>str.lower()\<close>\<close>

definition lower :: "string \<Rightarrow> string" where
  "lower s = map lower_char s"

text \<open>\<^verbatim>\<open>s.split(d)\<close> for a one-character separator: never the empty list.\<close>

fun split_on :: "char \<Rightarrow> string \<Rightarrow> string list" where
  "split_on d [] = [[]]"
| "split_on d (c # cs) =
     (if c = d then [] # split_on d cs
      else (case split_on d cs of [] \<Rightarrow> [[c]] | p # ps \<Rightarrow> (c # p) # ps))"

text \<open>Python's \<^verbatim>\<open>x or ''\<close> for an optional string.\<close>

definition or_empty :: "string option \<Rightarrow> string" where
  "or_empty v = (case v of None \<Rightarrow> [] | Some s \<Rightarrow> s)"

text \<open>Truthiness of an optional string: neither \<^verbatim>\<open>None\<close> nor \<^verbatim>\<open>''\<close>.\<close>

definition truthy :: "string option \<Rightarrow> bool" where
  "truthy v = (case v of None \<Rightarrow> False | Some s \<Rightarrow> s \<noteq> [])"

subsection \<open>Integers and their decimal form\<close>

definition digit_char :: "nat \<Rightarrow> char" where
  "digit_char d = ''0123456789'' ! d"

definition digit_val :: "char \<Rightarrow> nat" where
  "digit_val c = length (takeWhile (\<lambda>d. d \<noteq> c) ''0123456789'')"

fun str_nat :: "nat \<Rightarrow> string" where
  "str_nat n = (if n < 10 then [digit_char n] else str_nat (n div 10) @ [digit_char (n mod 10)])"

declare str_nat.simps [simp del]

text \<open>\<^verbatim>\<open>str(i)\<close>, also what \<^verbatim>\<open>"{}".format(i)\<close> produces for an integer.\<close>

definition str_int :: "int \<Rightarrow> string" where
  "str_int i = (if i < 0 then CHR ''-'' # str_nat (nat (- i)) else str_nat (nat i))"

text \<open>\<^verbatim>\<open>int(s)\<close> on a non-empty string of the digits \<^verbatim>\<open>0\<close> to \<^verbatim>\<open>9\<close>, as the pattern
  \<^verbatim>\<open>[0-9]+\<close> delivers it.\<close>

definition int_of_digits :: "string \<Rightarrow> int" where
  "int_of_digits s = int (foldl (\<lambda>a c. 10 * a + digit_val c) 0 s)"

subsection \<open>Results of loops that may raise\<close>

text \<open>A comprehension or \<^verbatim>\<open>for\<close> loop over a list stops at the first exception.\<close>

fun map_result :: "('a \<Rightarrow> error + 'b) \<Rightarrow> 'a list \<Rightarrow> error + 'b list" where
  "map_result f [] = Inr []"
| "map_result f (x # xs) =
     (case f x of
        Inl e \<Rightarrow> Inl e
      | Inr y \<Rightarrow> (case map_result f xs of Inl e \<Rightarrow> Inl e | Inr ys \<Rightarrow> Inr (y # ys)))"

fun filter_result :: "('a \<Rightarrow> error + bool) \<Rightarrow> 'a list \<Rightarrow> error + 'a list" where
  "filter_result p [] = Inr []"
| "filter_result p (x # xs) =
     (case p x of
        Inl e \<Rightarrow> Inl e
      | Inr b \<Rightarrow> (case filter_result p xs of
                    Inl e \<Rightarrow> Inl e
                  | Inr ys \<Rightarrow> Inr (if b then x # ys else ys)))"

lemma map_result_cong [fundef_cong]:
  "xs = ys \<Longrightarrow> (\<And>x. x \<in> set ys \<Longrightarrow> f x = g x) \<Longrightarrow> map_result f xs = map_result g ys"
  by (induction ys arbitrary: xs) (auto split: sum.splits)

section \<open>Classes and the tag registry\<close>

text \<open>
  The classes of \<^verbatim>\<open>gedcom/__init__.py\<close> and \<^verbatim>\<open>gedcom/individual.py\<close>.
  \<open>Element_cls\<close> is the generic class \<^verbatim>\<open>Element\<close>.
\<close>

datatype klass =
    Element_cls
  | Individual
  | Family
  | Spouse
  | Husband
  | Wife
  | Event
  | Birth
  | Death
  | Marriage
  | Note

text \<open>\<^verbatim>\<open>register.class_for_tag\<close>: the table filled by the \<^verbatim>\<open>@register_tag\<close> decorators.\<close>

definition class_for_tag :: "string \<Rightarrow> klass" where
  "class_for_tag t =
     (if t = ''INDI'' then Individual
      else if t = ''FAM'' then Family
      else if t = ''HUSB'' then Husband
      else if t = ''WIFE'' then Wife
      else if t = ''BIRT'' then Birth
      else if t = ''DEAT'' then Death
      else if t = ''MARR'' then Marriage
      else if t = ''NOTE'' then Note
      else Element_cls)"

text \<open>\<^verbatim>\<open>isinstance(x, Spouse)\<close>: \<^verbatim>\<open>Husband\<close> and \<^verbatim>\<open>Wife\<close> derive from \<^verbatim>\<open>Spouse\<close>.\<close>

definition is_Spouse :: "klass \<Rightarrow> bool" where
  "is_Spouse k \<longleftrightarrow> k = Spouse \<or> k = Husband \<or> k = Wife"

section \<open>Elements as trees\<close>

text \<open>
  An element with its subtree. \<open>level\<close> is \<open>None\<close> for Python's \<^verbatim>\<open>None\<close> and
  \<open>Some n\<close> for an integer; \<open>value_el\<close> and \<open>id_el\<close> are \<open>None\<close> for \<^verbatim>\<open>None\<close>.
  The back-reference \<^verbatim>\<open>gedcom_file\<close> of an element is passed explicitly to the
  operations that read it.
\<close>

datatype element =
  Element (klass: klass) (level: "int option") (tag: string)
          (value_el: "string option") (id_el: "string option")
          (child_elements: "element list")

definition set_level :: "int option \<Rightarrow> element \<Rightarrow> element" where
  "set_level l e = Element (klass e) l (tag e) (value_el e) (id_el e) (child_elements e)"

definition set_id :: "string option \<Rightarrow> element \<Rightarrow> element" where
  "set_id i e = Element (klass e) (level e) (tag e) (value_el e) i (child_elements e)"


text \<open>What \<^verbatim>\<open>Element.__getitem__\<close> returns: one child, or a list of children.\<close>

datatype item = One element | Many "element list"

text \<open>\<^verbatim>\<open>Element.__getitem__\<close>\<close>

definition getitem :: "element \<Rightarrow> string \<Rightarrow> error + item" where
  "getitem self key =
     (let children = filter (\<lambda>c. tag c = key) (child_elements self) in
      if length children = 0 then Inl IndexError
      else if length children = 1 then Inr (One (children ! 0))
      else Inr (Many children))"

text \<open>\<^verbatim>\<open>Element.__contains__\<close>\<close>

definition contains :: "element \<Rightarrow> string \<Rightarrow> bool" where
  "contains self key = list_ex (\<lambda>c. tag c = key) (child_elements self)"

text \<open>\<^verbatim>\<open>Element.get_list\<close>\<close>

definition get_list :: "element \<Rightarrow> string \<Rightarrow> element list" where
  "get_list self t = filter (\<lambda>c. tag c = t) (child_elements self)"


text \<open>
  The attribute \<^verbatim>\<open>.value\<close> of what \<^verbatim>\<open>__getitem__\<close> returned: a Python list has no such
  attribute.
\<close>

definition item_value :: "item \<Rightarrow> error + string option" where
  "item_value it = (case it of One c \<Rightarrow> Inr (value_el c) | Many cs \<Rightarrow> Inl AttributeError)"

lemma size_set_level [simp]: "size (set_level l e) = size e"
  by (cases e) (simp add: set_level_def)

text \<open>
  \<^verbatim>\<open>Element.set_levels_downward\<close>: returns the element with the levels of its subtree
  rewritten. The only check is \<^verbatim>\<open>isinstance(self.level, numbers.Integral)\<close>.
\<close>

function set_levels_downward :: "element \<Rightarrow> error + element" where
  "set_levels_downward (Element k l t v i cs) =
     (case l of
        None \<Rightarrow> Inl TypeError
      | Some n \<Rightarrow>
          (case map_result (\<lambda>c. set_levels_downward (set_level (Some (n + 1)) c)) cs of
             Inl e \<Rightarrow> Inl e
           | Inr cs' \<Rightarrow> Inr (Element k l t v i cs')))"
  by pat_completeness auto
termination
  by (relation "measure size") (auto simp: less_Suc_eq_le size_list_estimation')

declare set_levels_downward.simps [simp del]

text \<open>The line of one element, as \<^verbatim>\<open>Element.gedcom_lines\<close> formats it.\<close>

definition str_level :: "int option \<Rightarrow> string" where
  "str_level l = (case l of None \<Rightarrow> ''None'' | Some n \<Rightarrow> str_int n)"

definition gedcom_line :: "int option \<Rightarrow> string option \<Rightarrow> string \<Rightarrow> string option \<Rightarrow> string" where
  "gedcom_line l i t v =
     str_level l @ (if truthy i then '' '' @ the i else '''') @ '' '' @ t
       @ (if truthy v then '' '' @ the v else '''')"


subsection \<open>Notes\<close>

text \<open>The loop of \<^verbatim>\<open>Note.full_text\<close> over the children, \<open>result\<close> being the text so far.\<close>

fun full_text_loop :: "element list \<Rightarrow> string \<Rightarrow> error + string" where
  "full_text_loop [] result = Inr result"
| "full_text_loop (cons # rest) result =
     (if tag cons = ''CONT'' then
        full_text_loop rest ((result @ [newline]) @ or_empty (value_el cons))
      else if tag cons = ''CONC'' then
        full_text_loop rest (result @ or_empty (value_el cons))
      else Inl ValueError)"

text \<open>
  \<^verbatim>\<open>Note.full_text\<close>. The first statement is \<^verbatim>\<open>result = "" + self.value or ''\<close>, which
  Python reads as \<^verbatim>\<open>("" + self.value) or ''\<close>: the concatenation comes first and raises
  \<^verbatim>\<open>TypeError\<close> when the value is \<^verbatim>\<open>None\<close>.
\<close>

definition full_text :: "element \<Rightarrow> error + string" where
  "full_text self =
     (case value_el self of
        None \<Rightarrow> Inl TypeError
      | Some v \<Rightarrow> full_text_loop (child_elements self) (or_empty (Some ('''' @ v))))"

text \<open>What a \<^verbatim>\<open>CONT\<close> or \<^verbatim>\<open>CONC\<close> child adds to the text of a note.\<close>

definition note_piece :: "element \<Rightarrow> string" where
  "note_piece c =
     (if tag c = ''CONT'' then newline # or_empty (value_el c) else or_empty (value_el c))"

definition continuation :: "element \<Rightarrow> bool" where
  "continuation c \<longleftrightarrow> tag c = ''CONT'' \<or> tag c = ''CONC''"


subsection \<open>Levels of a subtree\<close>

text \<open>
  The subtree with level \<open>n\<close> at its root and every child one level below its parent;
  nothing else changes.
\<close>

fun relevel :: "int \<Rightarrow> element \<Rightarrow> element" where
  "relevel n (Element k l t v i cs) = Element k (Some n) t v i (map (relevel (n + 1)) cs)"

text \<open>Every child in the subtree has the level of its parent plus one.\<close>

fun child_levels_ok :: "element \<Rightarrow> bool" where
  "child_levels_ok (Element k l t v i cs) =
     list_all (\<lambda>c. (l \<noteq> None \<and> level c = map_option (\<lambda>n. n + 1) l) \<and> child_levels_ok c) cs"

section \<open>The file and the record-specific views\<close>

text \<open>
  The state of a \<^verbatim>\<open>GedcomFile\<close>. \<open>'r\<close> is what the file holds for an element: the element
  itself where nothing is changed afterwards, its address where the parser goes on
  appending children to elements that are already in the file.
\<close>

record 'r gedcom_file =
  root_elements :: "'r list"
  pointers :: "string \<rightharpoonup> 'r"
  next_free_id :: int

text \<open>\<^verbatim>\<open>GedcomFile.__getitem__\<close>; the key is \<^verbatim>\<open>None\<close> when the caller passes a missing value.\<close>

definition file_getitem :: "'r gedcom_file \<Rightarrow> string option \<Rightarrow> error + 'r" where
  "file_getitem self key =
     (case key of
        None \<Rightarrow> Inl KeyError
      | Some k \<Rightarrow> (case pointers self k of None \<Rightarrow> Inl KeyError | Some e \<Rightarrow> Inr e))"

text \<open>\<^verbatim>\<open>Element.get_by_id\<close>, \<open>f\<close> being the element's \<^verbatim>\<open>gedcom_file\<close>.\<close>

definition get_by_id :: "element gedcom_file \<Rightarrow> string option \<Rightarrow> error + element" where
  "get_by_id f other_id = file_getitem f other_id"

text \<open>\<^verbatim>\<open>Family.partners\<close>: a property of the class \<^verbatim>\<open>Family\<close> only.\<close>

definition partners :: "element \<Rightarrow> error + element list" where
  "partners self =
     (if klass self = Family then Inr (get_list self ''HUSB'' @ get_list self ''WIFE'')
      else Inl AttributeError)"

text \<open>\<^verbatim>\<open>Spouse.as_individual\<close>: a method of \<^verbatim>\<open>Spouse\<close> and its subclasses only.\<close>

definition as_individual :: "element gedcom_file \<Rightarrow> element \<Rightarrow> error + element" where
  "as_individual f self =
     (if is_Spouse (klass self) then file_getitem f (value_el self) else Inl AttributeError)"

subsection \<open>Individuals\<close>

text \<open>\<^verbatim>\<open>Individual.parents\<close>. The check that the individual is among the \<^verbatim>\<open>CHIL\<close> children
  of the family ends in \<^verbatim>\<open>pass\<close> and changes nothing.\<close>

definition parents :: "element gedcom_file \<Rightarrow> element \<Rightarrow> error + element list" where
  "parents f self =
     (if contains self ''FAMC'' then
        (case getitem self ''FAMC'' of
           Inl e \<Rightarrow> Inl e
         | Inr it \<Rightarrow>
             (case item_value it of
                Inl e \<Rightarrow> Inl e
              | Inr family_as_child_id \<Rightarrow>
                  (case get_by_id f family_as_child_id of
                     Inl e \<Rightarrow> Inl e
                   | Inr family \<Rightarrow>
                       (case partners family of
                          Inl e \<Rightarrow> Inl e
                        | Inr ps \<Rightarrow> map_result (as_individual f) ps))))
      else Inr [])"

text \<open>\<^verbatim>\<open>Individual.sex\<close>\<close>

definition sex :: "element \<Rightarrow> error + string option" where
  "sex self = (case getitem self ''SEX'' of Inl e \<Rightarrow> Inl e | Inr it \<Rightarrow> item_value it)"

text \<open>
  \<^verbatim>\<open>self.sex.lower() == c\<close>, the body of \<^verbatim>\<open>is_male\<close> and \<^verbatim>\<open>is_female\<close>. Both are
  properties of the class \<^verbatim>\<open>Individual\<close> only, and \<^verbatim>\<open>None\<close> has no method \<^verbatim>\<open>lower\<close>.
\<close>

definition sex_is :: "string \<Rightarrow> element \<Rightarrow> error + bool" where
  "sex_is c self =
     (if klass self \<noteq> Individual then Inl AttributeError
      else (case sex self of
              Inl e \<Rightarrow> Inl e
            | Inr None \<Rightarrow> Inl AttributeError
            | Inr (Some s) \<Rightarrow> Inr (lower s = c)))"

definition is_male :: "element \<Rightarrow> error + bool" where
  "is_male self = sex_is ''m'' self"

definition is_female :: "element \<Rightarrow> error + bool" where
  "is_female self = sex_is ''f'' self"

text \<open>The three-way ending of \<^verbatim>\<open>father\<close> and \<^verbatim>\<open>mother\<close>.\<close>

definition none_one_or_fail :: "element list \<Rightarrow> error + element option" where
  "none_one_or_fail xs =
     (if length xs = 0 then Inr None
      else if length xs = 1 then Inr (Some (xs ! 0))
      else Inl NotImplementedError)"

text \<open>\<^verbatim>\<open>Individual.father\<close>\<close>

definition father :: "element gedcom_file \<Rightarrow> element \<Rightarrow> error + element option" where
  "father f self =
     (case parents f self of
        Inl e \<Rightarrow> Inl e
      | Inr ps \<Rightarrow>
          (case filter_result is_male ps of
             Inl e \<Rightarrow> Inl e
           | Inr male_parents \<Rightarrow> none_one_or_fail male_parents))"

text \<open>\<^verbatim>\<open>Individual.mother\<close>\<close>

definition mother :: "element gedcom_file \<Rightarrow> element \<Rightarrow> error + element option" where
  "mother f self =
     (case parents f self of
        Inl e \<Rightarrow> Inl e
      | Inr ps \<Rightarrow>
          (case filter_result is_female ps of
             Inl e \<Rightarrow> Inl e
           | Inr female_parents \<Rightarrow> none_one_or_fail female_parents))"

text \<open>
  The extraction of given and family name from a \<^verbatim>\<open>NAME\<close> element; \<^verbatim>\<open>Individual.name\<close>
  (lines 54 to 60) and \<^verbatim>\<open>Individual.aka\<close> (lines 78 to 84) contain the same statements.
  Unpacking \<^verbatim>\<open>first, last, dud = value.split("/")\<close> raises \<^verbatim>\<open>ValueError\<close> unless there are
  exactly three parts.
\<close>

definition name_parts :: "element \<Rightarrow> error + (string option \<times> string option)" where
  "name_parts name =
     (if value_el name = Some '''' \<or> value_el name = None then
        (case getitem name ''GIVN'' of
           Inl e \<Rightarrow> Inl e
         | Inr g \<Rightarrow>
             (case item_value g of
                Inl e \<Rightarrow> Inl e
              | Inr first_name \<Rightarrow>
                  (case getitem name ''SURN'' of
                     Inl e \<Rightarrow> Inl e
                   | Inr s \<Rightarrow>
                       (case item_value s of
                          Inl e \<Rightarrow> Inl e
                        | Inr last_name \<Rightarrow> Inr (first_name, last_name)))))
      else
        (case split_on CHR ''/'' (the (value_el name)) of
           [first_name, last_name, dud] \<Rightarrow> Inr (Some (strip first_name), Some (strip last_name))
         | _ \<Rightarrow> Inl ValueError))"

text \<open>The condition \<^verbatim>\<open>'TYPE' in name and name['TYPE'].value.lower() == 'aka'\<close>.\<close>

definition is_aka :: "element \<Rightarrow> error + bool" where
  "is_aka name =
     (if contains name ''TYPE'' then
        (case getitem name ''TYPE'' of
           Inl e \<Rightarrow> Inl e
         | Inr it \<Rightarrow>
             (case item_value it of
                Inl e \<Rightarrow> Inl e
              | Inr None \<Rightarrow> Inl AttributeError
              | Inr (Some v) \<Rightarrow> Inr (lower v = ''aka'')))
      else Inr False)"

text \<open>The loop of \<^verbatim>\<open>Individual.aka\<close> over the list of names.\<close>

fun aka_loop ::
  "element list \<Rightarrow> (string option \<times> string option) list
     \<Rightarrow> error + (string option \<times> string option) list" where
  "aka_loop [] aka_list = Inr aka_list"
| "aka_loop (name # rest) aka_list =
     (case is_aka name of
        Inl e \<Rightarrow> Inl e
      | Inr b \<Rightarrow>
          (if b then
             (case name_parts name of
                Inl e \<Rightarrow> Inl e
              | Inr fl \<Rightarrow> aka_loop rest (aka_list @ [fl]))
           else aka_loop rest aka_list))"

text \<open>\<^verbatim>\<open>Individual.aka\<close>: the loop runs only under \<^verbatim>\<open>isinstance(name_tag, list)\<close>.\<close>

definition aka :: "element \<Rightarrow> error + (string option \<times> string option) list" where
  "aka self =
     (case getitem self ''NAME'' of
        Inl e \<Rightarrow> Inl e
      | Inr (Many name_tag) \<Rightarrow> aka_loop name_tag []
      | Inr (One name_tag) \<Rightarrow> Inr [])"

text \<open>
  What one \<^verbatim>\<open>NAME\<close> child contributes to the list of also-known-as names: nothing when it
  does not qualify, its extracted names when it does.
\<close>

definition aka_entry :: "element \<Rightarrow> error + (string option \<times> string option) list" where
  "aka_entry name =
     (case is_aka name of
        Inl e \<Rightarrow> Inl e
      | Inr b \<Rightarrow>
          (if b then (case name_parts name of Inl e \<Rightarrow> Inl e | Inr fl \<Rightarrow> Inr [fl])
           else Inr []))"

text \<open>\<^verbatim>\<open>Individual.name\<close>: with several names, the first without a \<^verbatim>\<open>TYPE\<close> child; when
  every name has one, \<^verbatim>\<open>preferred_name\<close> is never bound.\<close>

definition name :: "element \<Rightarrow> error + (string option \<times> string option)" where
  "name self =
     (case getitem self ''NAME'' of
        Inl e \<Rightarrow> Inl e
      | Inr (Many name_tag) \<Rightarrow>
          (case find (\<lambda>n. \<not> contains n ''TYPE'') name_tag of
             None \<Rightarrow> Inl UnboundLocalError
           | Some preferred_name \<Rightarrow> name_parts preferred_name)
      | Inr (One name_tag) \<Rightarrow> name_parts name_tag)"

text \<open>The \<^verbatim>\<open>SEX\<close> lookup of an element yields a string: exactly one \<^verbatim>\<open>SEX\<close> child, with a value.\<close>

definition sex_readable :: "element \<Rightarrow> bool" where
  "sex_readable p \<longleftrightarrow> (case sex p of Inr (Some s) \<Rightarrow> True | _ \<Rightarrow> False)"

subsection \<open>A family of three\<close>

text \<open>
  \<^verbatim>\<open>0 @I1@ INDI / 1 FAMC @F1@\<close>, \<^verbatim>\<open>0 @F1@ FAM / 1 HUSB @I2@ / 1 WIFE @I3@ / 1 CHIL @I1@\<close>,
  a wife \<^verbatim>\<open>@I3@\<close> without a \<^verbatim>\<open>SEX\<close> line, and two versions of the husband \<^verbatim>\<open>@I2@\<close>:
  one with the single line \<^verbatim>\<open>1 SEX M\<close>, one where that line occurs twice.
\<close>

definition example_child :: element where
  "example_child = Element Individual (Some 0) ''INDI'' None (Some ''@I1@'')
     [Element Element_cls (Some 1) ''FAMC'' (Some ''@F1@'') None []]"

definition example_family :: element where
  "example_family = Element Family (Some 0) ''FAM'' None (Some ''@F1@'')
     [Element Husband (Some 1) ''HUSB'' (Some ''@I2@'') None [],
      Element Wife (Some 1) ''WIFE'' (Some ''@I3@'') None [],
      Element Element_cls (Some 1) ''CHIL'' (Some ''@I1@'') None []]"

definition example_wife :: element where
  "example_wife = Element Individual (Some 0) ''INDI'' None (Some ''@I3@'') []"

definition example_husband :: element where
  "example_husband = Element Individual (Some 0) ''INDI'' None (Some ''@I2@'')
     [Element Element_cls (Some 1) ''SEX'' (Some ''M'') None []]"

definition example_husband_two_sex :: element where
  "example_husband_two_sex = Element Individual (Some 0) ''INDI'' None (Some ''@I2@'')
     [Element Element_cls (Some 1) ''SEX'' (Some ''M'') None [],
      Element Element_cls (Some 1) ''SEX'' (Some ''M'') None []]"

definition example_file :: "element \<Rightarrow> element gedcom_file" where
  "example_file husband =
     \<lparr>root_elements = [example_child, husband, example_wife, example_family],
      pointers = [''@I1@'' \<mapsto> example_child, ''@I2@'' \<mapsto> husband,
                  ''@I3@'' \<mapsto> example_wife, ''@F1@'' \<mapsto> example_family],
      next_free_id = 1\<rparr>"

section \<open>Lines\<close>

text \<open>
  The pattern \<^verbatim>\<open>line_format\<close>:
  \<^verbatim>\<open>^(?P<level>[0-9]+) ((?P<id>@[a-zA-Z0-9]+@) )?(?P<tag>[_A-Z0-9]+)( (?P<value>.*))?$\<close>
\<close>

definition is_digit :: "char \<Rightarrow> bool" where
  "is_digit c \<longleftrightarrow> c \<in> set ''0123456789''"

definition is_alnum :: "char \<Rightarrow> bool" where
  "is_alnum c \<longleftrightarrow>
     c \<in> set ''abcdefghijklmnopqrstuvwxyzABCDEFGHIJKLMNOPQRSTUVWXYZ0123456789''"

definition is_tag_char :: "char \<Rightarrow> bool" where
  "is_tag_char c \<longleftrightarrow> c \<in> set ''_ABCDEFGHIJKLMNOPQRSTUVWXYZ0123456789''"

text \<open>
  The optional group \<^verbatim>\<open>((?P<id>@[a-zA-Z0-9]+@) )?\<close> at the front of \<open>r\<close>: the id, if the
  group matches, and what is left of \<open>r\<close>. A tag cannot start with \<^verbatim>\<open>@\<close>, so the group is
  taken whenever it matches.
\<close>

definition match_id :: "string \<Rightarrow> string option \<times> string" where
  "match_id r =
     (case r of
        [] \<Rightarrow> (None, r)
      | c # r' \<Rightarrow>
          (if c = CHR ''@'' then
             (let name = takeWhile is_alnum r'; r'' = dropWhile is_alnum r' in
              if name \<noteq> [] \<and> take 2 r'' = ''@ '' then
                (Some (CHR ''@'' # name @ ''@''), drop 2 r'')
              else (None, r))
           else (None, r)))"

text \<open>
  \<^verbatim>\<open>line_format.match(s)\<close> with the groups \<^verbatim>\<open>level\<close>, \<^verbatim>\<open>id\<close>, \<^verbatim>\<open>tag\<close> and \<^verbatim>\<open>value\<close>.
  \<^verbatim>\<open>$\<close> matches at the end of \<open>s\<close> and before a newline that ends \<open>s\<close>; \<^verbatim>\<open>.\<close> matches
  every character but the newline. Each repetition is followed by a character outside its
  class, so the match is unique.
\<close>

definition line_format_match ::
  "string \<Rightarrow> (string \<times> string option \<times> string \<times> string option) option" where
  "line_format_match s =
     (let s0 = (if s \<noteq> [] \<and> last s = newline then butlast s else s);
          ds = takeWhile is_digit s0;
          r1 = dropWhile is_digit s0
      in if ds = [] then None
         else (case r1 of
                 [] \<Rightarrow> None
               | c # r2 \<Rightarrow>
                   (if c \<noteq> CHR '' '' then None
                    else (case match_id r2 of
                            (i, r3) \<Rightarrow>
                              (let t = takeWhile is_tag_char r3;
                                   r4 = dropWhile is_tag_char r3
                               in if t = [] then None
                                  else (case r4 of
                                          [] \<Rightarrow> Some (ds, i, t, None)
                                        | d # v \<Rightarrow>
                                            (if d = CHR '' '' \<and> newline \<notin> set v
                                             then Some (ds, i, t, Some v)
                                             else None)))))))"

text \<open>
  The first half of the loop body of \<^verbatim>\<open>__parse\<close> (lines 377 to 384): \<open>None\<close> for a line
  that is skipped, \<open>Some None\<close> for one that does not match (\<^verbatim>\<open>NotImplementedError\<close>), and
  otherwise the level as an integer with the other three groups.
\<close>

type_synonym fields = "int \<times> string option \<times> string \<times> string option"

definition line_fields :: "string \<Rightarrow> fields option option" where
  "line_fields line0 =
     (let line = strip line0 in
      if line = '''' then None
      else (case line_format_match line of
              None \<Rightarrow> Some None
            | Some (ds, i, t, v) \<Rightarrow> Some (Some (int_of_digits ds, i, t, v))))"

section \<open>The parser\<close>

text \<open>
  While parsing, an element that is already in the file and in \<^verbatim>\<open>level_to_obj\<close> still
  receives children. The elements therefore live in a heap, a list of objects addressed by
  position; children, parents, \<^verbatim>\<open>level_to_obj\<close> and the file refer to them by address.
\<close>

record element_obj =
  o_klass :: klass
  o_level :: "int option"
  o_tag :: string
  o_value :: "string option"
  o_id :: "string option"
  o_parent :: "nat option"
  o_parent_id :: "string option"
  o_child_elements :: "nat list"

record parse_state =
  heap :: "element_obj list"
  level_to_obj :: "int \<rightharpoonup> nat"
  gfile :: "nat gedcom_file"

text \<open>
  The end of \<^verbatim>\<open>GedcomFile.add_element\<close> (lines 81 to 85), for an element \<open>element\<close> with id
  \<open>eid\<close> and level \<open>elevel\<close>. Assigning to a key that is already in \<^verbatim>\<open>pointers\<close> replaces
  its entry.
\<close>

definition register_element ::
  "'r gedcom_file \<Rightarrow> 'r \<Rightarrow> string option \<Rightarrow> int option \<Rightarrow> 'r gedcom_file" where
  "register_element self element eid elevel =
     (let self1 = (if truthy eid then self\<lparr>pointers := (pointers self)(the eid \<mapsto> element)\<rparr>
                   else self)
      in if elevel = Some 0 then self1\<lparr>root_elements := root_elements self1 @ [element]\<rparr>
         else self1)"

text \<open>
  \<^verbatim>\<open>register.line_to_element\<close> with \<^verbatim>\<open>Element.__init__\<close>: the new object gets the address
  \<open>length h\<close>; with a parent, \<^verbatim>\<open>add_child_element\<close> appends that address to the parent's
  children and copies the parent's id. The class registered for a tag has that tag as its
  \<^verbatim>\<open>default_tag\<close>, so the constructor does not raise.
\<close>

definition line_to_element ::
  "element_obj list \<Rightarrow> int \<Rightarrow> nat option \<Rightarrow> string \<Rightarrow> string option \<Rightarrow> string option
     \<Rightarrow> element_obj list" where
  "line_to_element h lv parent t v i =
     (let new = \<lparr>o_klass = class_for_tag t, o_level = Some lv, o_tag = t, o_value = v,
                 o_id = i, o_parent = parent, o_parent_id = None, o_child_elements = []\<rparr>
      in case parent of
           None \<Rightarrow> h @ [new]
         | Some p \<Rightarrow>
             h[p := (h ! p)\<lparr>o_child_elements := o_child_elements (h ! p) @ [length h]\<rparr>]
               @ [new\<lparr>o_parent_id := o_id (h ! p)\<rparr>])"

text \<open>
  The second half of the loop body of \<^verbatim>\<open>__parse\<close> (lines 384 to 401). A missing key in
  \<^verbatim>\<open>level_to_obj[level - 1]\<close> raises \<^verbatim>\<open>KeyError\<close>. The level of the new element is an
  integer, so \<^verbatim>\<open>add_element\<close> runs its last five lines only.
\<close>

definition place_element :: "parse_state \<Rightarrow> fields \<Rightarrow> error + parse_state" where
  "place_element st f =
     (case f of
        (lv, i, t, v) \<Rightarrow>
          (case (if lv = 0 then Inr (level_to_obj st, None)
                 else (let l2o = (\<lambda>l. if l < lv then level_to_obj st l else None) in
                       case l2o (lv - 1) of
                         None \<Rightarrow> Inl KeyError
                       | Some p \<Rightarrow> Inr (l2o, Some p))) of
             Inl e \<Rightarrow> Inl e
           | Inr (l2o, parent) \<Rightarrow>
               Inr \<lparr>heap = line_to_element (heap st) lv parent t v i,
                    level_to_obj = l2o(lv \<mapsto> length (heap st)),
                    gfile = register_element (gfile st) (length (heap st)) i (Some lv)\<rparr>))"

text \<open>One turn of the loop of \<^verbatim>\<open>__parse\<close>.\<close>

definition parse_line :: "parse_state \<Rightarrow> string \<Rightarrow> error + parse_state" where
  "parse_line st line =
     (case line_fields line of
        None \<Rightarrow> Inr st
      | Some None \<Rightarrow> Inl NotImplementedError
      | Some (Some f) \<Rightarrow> place_element st f)"

fun parse_lines :: "parse_state \<Rightarrow> string list \<Rightarrow> error + parse_state" where
  "parse_lines st [] = Inr st"
| "parse_lines st (line # lines) =
     (case parse_line st line of Inl e \<Rightarrow> Inl e | Inr st' \<Rightarrow> parse_lines st' lines)"

text \<open>\<^verbatim>\<open>GedcomFile.__init__\<close>\<close>

definition new_file :: "'r gedcom_file" where
  "new_file = \<lparr>root_elements = [], pointers = Map.empty, next_free_id = 1\<rparr>"

definition initial_state :: parse_state where
  "initial_state = \<lparr>heap = [], level_to_obj = Map.empty, gfile = new_file\<rparr>"

text \<open>\<^verbatim>\<open>__parse\<close>\<close>

definition dunder_parse :: "string list \<Rightarrow> error + parse_state" where
  "dunder_parse lines_iter = parse_lines initial_state lines_iter"

text \<open>\<^verbatim>\<open>parse_string\<close>\<close>

definition parse_string :: "string \<Rightarrow> error + parse_state" where
  "parse_string s = dunder_parse (split_on newline s)"

subsection \<open>The parser in terms of the lines read so far\<close>

text \<open>The loop of \<^verbatim>\<open>__parse\<close> over the fields of lines that matched.\<close>

fun place_all :: "parse_state \<Rightarrow> fields list \<Rightarrow> error + parse_state" where
  "place_all st [] = Inr st"
| "place_all st (f # fs) =
     (case place_element st f of Inl e \<Rightarrow> Inl e | Inr st' \<Rightarrow> place_all st' fs)"

text \<open>Every line is blank or matches the pattern.\<close>

definition grammatical :: "string list \<Rightarrow> bool" where
  "grammatical lines \<longleftrightarrow> list_all (\<lambda>l. line_fields l \<noteq> Some None) lines"

text \<open>The lines before the first line that is neither blank nor grammatical.\<close>

definition readable_prefix :: "string list \<Rightarrow> string list" where
  "readable_prefix lines = takeWhile (\<lambda>l. line_fields l \<noteq> Some None) lines"

text \<open>The fields of the lines that are not blank, in input order.\<close>

definition all_fields :: "string list \<Rightarrow> fields list" where
  "all_fields lines =
     concat (map (\<lambda>l. case line_fields l of Some (Some f) \<Rightarrow> [f] | _ \<Rightarrow> []) lines)"

definition level_of :: "fields \<Rightarrow> int" where
  "level_of f = fst f"

definition id_of :: "fields \<Rightarrow> string option" where
  "id_of f = fst (snd f)"

text \<open>
  The element most recently opened at level \<open>l\<close> and still open, given the levels of the
  elements created so far, the most recent first. Going back in time: an element at level
  \<open>l\<close> is the answer, its address being the number of elements older than it; an element
  at a level \<open>x\<close> with \<open>0 < x < l\<close> discarded everything at the levels from \<open>x\<close> on, so
  nothing is open at level \<open>l\<close>; deeper elements are passed over, and so are root
  elements, which discard nothing.
\<close>

fun most_recent :: "int list \<Rightarrow> int \<Rightarrow> nat option" where
  "most_recent [] l = None"
| "most_recent (x # older) l =
     (if x = l then Some (length older)
      else if x \<noteq> 0 \<and> x < l then None
      else most_recent older l)"

text \<open>The parent of the element at address \<open>a\<close>, from the levels of the elements in input
  order: none for a root, else the element open one level up when \<open>a\<close> is created.\<close>

definition parent_of :: "int list \<Rightarrow> nat \<Rightarrow> nat option" where
  "parent_of levels a =
     (if levels ! a = 0 then None
      else most_recent (rev (take a levels)) (levels ! a - 1))"

definition orphan :: "int list \<Rightarrow> nat \<Rightarrow> bool" where
  "orphan levels a \<longleftrightarrow> levels ! a \<noteq> 0 \<and> parent_of levels a = None"

text \<open>
  The object that the element at address \<open>a\<close> should be after the lines with fields \<open>fs\<close>:
  its own fields, its parent, and as children the later elements that have it as parent,
  in input order.
\<close>

definition expected_obj :: "fields list \<Rightarrow> nat \<Rightarrow> element_obj" where
  "expected_obj fs a =
     (case fs ! a of
        (lv, i, t, v) \<Rightarrow>
          \<lparr>o_klass = class_for_tag t, o_level = Some lv, o_tag = t, o_value = v, o_id = i,
           o_parent = parent_of (map level_of fs) a,
           o_parent_id =
             (case parent_of (map level_of fs) a of
                None \<Rightarrow> None
              | Some p \<Rightarrow> id_of (fs ! p)),
           o_child_elements =
             filter (\<lambda>c. parent_of (map level_of fs) c = Some a) [0..<length fs]\<rparr>)"

text \<open>The last element with id \<open>k\<close>, given the ids of the elements, the most recent first.\<close>

fun latest_with_id :: "string option list \<Rightarrow> string \<Rightarrow> nat option" where
  "latest_with_id [] k = None"
| "latest_with_id (i # older) k =
     (if truthy i \<and> i = Some k then Some (length older) else latest_with_id older k)"

text \<open>
  What the parser's state is after the lines with fields \<open>fs\<close>: the heap holds the expected
  objects, \<^verbatim>\<open>level_to_obj\<close> holds the open elements, the roots are the elements of level
  0 in input order, and each id is bound to the last element that carries it.
\<close>

definition parsed :: "fields list \<Rightarrow> parse_state \<Rightarrow> bool" where
  "parsed fs st \<longleftrightarrow>
     heap st = map (expected_obj fs) [0..<length fs] \<and>
     level_to_obj st = most_recent (rev (map level_of fs)) \<and>
     root_elements (gfile st) = filter (\<lambda>a. level_of (fs ! a) = 0) [0..<length fs] \<and>
     pointers (gfile st) = latest_with_id (rev (map id_of fs)) \<and>
     next_free_id (gfile st) = 1"

section \<open>Adding elements to a file\<close>

text \<open>
  The loop \<^verbatim>\<open>for step in range(1, 1000000)\<close> of \<^verbatim>\<open>add_element\<close> with \<open>k\<close> turns left:
  the counter after the loop and the id that was found, or \<open>None\<close> when the loop ran out
  and its \<^verbatim>\<open>else\<close> branch raises.
\<close>

fun alloc_loop :: "nat \<Rightarrow> (string \<rightharpoonup> 'r) \<Rightarrow> string \<Rightarrow> int \<Rightarrow> int \<times> string option" where
  "alloc_loop 0 ptrs prefix nfi = (nfi, None)"
| "alloc_loop (Suc k) ptrs prefix nfi =
     (let potential_id = ''@'' @ prefix @ str_int nfi @ ''@'' in
      if ptrs potential_id \<noteq> None then alloc_loop k ptrs prefix (nfi + 1)
      else (nfi + 1, Some potential_id))"

text \<open>
  \<^verbatim>\<open>GedcomFile.add_element\<close> for an element that nothing else refers to: the file after
  the call, and the exception raised or the element as the call leaves it. The file holds
  elements by value. \<^verbatim>\<open>range(1, 1000000)\<close> has 999999 members.
\<close>

definition add_element ::
  "element gedcom_file \<Rightarrow> element \<Rightarrow> element gedcom_file \<times> (error + element)" where
  "add_element self element =
     (case level element of
        None \<Rightarrow>
          (if \<not> (klass element = Individual \<or> klass element = Family) then (self, Inl TypeError)
           else
             (case set_levels_downward (set_level (Some 0) element) of
                Inl e \<Rightarrow> (self, Inl e)
              | Inr element1 \<Rightarrow>
                  (let prefix = (if klass element = Individual then ''I'' else ''F'') in
                   case alloc_loop 999999 (pointers self) prefix (next_free_id self) of
                     (nfi, None) \<Rightarrow> (self\<lparr>next_free_id := nfi\<rparr>, Inl Exception)
                   | (nfi, Some potential_id) \<Rightarrow>
                       (let element2 = set_id (Some potential_id) element1 in
                        (register_element (self\<lparr>next_free_id := nfi\<rparr>) element2
                           (id_el element2) (level element2),
                         Inr element2)))))
      | Some l \<Rightarrow>
          (register_element self element (id_el element) (level element), Inr element))"

text \<open>A sequence of calls of \<^verbatim>\<open>add_element\<close> on one file; a call that raises does not
  stop the calls after it.\<close>

fun add_elements ::
  "element gedcom_file \<Rightarrow> element list \<Rightarrow> element gedcom_file \<times> (error + element) list" where
  "add_elements self [] = (self, [])"
| "add_elements self (e # es) =
     (case add_element self e of
        (self1, r) \<Rightarrow> (case add_elements self1 es of (self2, rs) \<Rightarrow> (self2, r # rs)))"

text \<open>
  The ids allocated during such a sequence, in order: for each call that allocated one,
  the number \<open>n\<close> (the counter after the call less one), the class of the element, the id
  it was given and the pointer table the call started with.
\<close>

fun allocations ::
  "element gedcom_file \<Rightarrow> element list
     \<Rightarrow> (int \<times> klass \<times> string option \<times> (string \<rightharpoonup> element)) list" where
  "allocations self [] = []"
| "allocations self (e # es) =
     (case add_element self e of
        (self1, r) \<Rightarrow>
          (if level e = None \<and> \<not> isl r
           then [(next_free_id self1 - 1, klass e, id_el (projr r), pointers self)]
           else [])
          @ allocations self1 es)"

text \<open>The id \<^verbatim>\<open>@I<n>@\<close> of an \<^verbatim>\<open>Individual\<close>, \<^verbatim>\<open>@F<n>@\<close> of a \<^verbatim>\<open>Family\<close>.\<close>

definition auto_id :: "klass \<Rightarrow> int \<Rightarrow> string" where
  "auto_id k n = ''@'' @ (if k = Individual then ''I'' else ''F'') @ str_int n @ ''@''"

text \<open>
  A file in which \<^verbatim>\<open>@I1@\<close> and \<^verbatim>\<open>@I2@\<close> are taken, and three new elements without a
  level: an individual, a note and a family.
\<close>

definition example_taken :: "element gedcom_file" where
  "example_taken = \<lparr>root_elements = [],
            pointers = [''@I1@'' \<mapsto> Element Individual (Some 0) ''INDI'' None (Some ''@I1@'') [],
                        ''@I2@'' \<mapsto> Element Individual (Some 0) ''INDI'' None (Some ''@I2@'') []],
            next_free_id = 1\<rparr>"

definition example_fresh :: "element list" where
  "example_fresh = [Element Individual None ''INDI'' None None
              [Element Element_cls None ''SEX'' (Some ''F'') None []],
            Element Note None ''NOTE'' (Some ''x'') None [],
            Element Family None ''FAM'' None None []]"


section \<open>Serializing a file\<close>







subsection \<open>Documents that the line format can express\<close>

text \<open>A tag matches \<^verbatim>\<open>[_A-Z0-9]+\<close>, a pointer \<^verbatim>\<open>@[a-zA-Z0-9]+@\<close>.\<close>

definition valid_tag :: "string \<Rightarrow> bool" where
  "valid_tag t \<longleftrightarrow> t \<noteq> [] \<and> list_all is_tag_char t"

definition valid_pointer :: "string \<Rightarrow> bool" where
  "valid_pointer x \<longleftrightarrow>
     length x \<ge> 3 \<and> hd x = CHR ''@'' \<and> last x = CHR ''@''
     \<and> list_all is_alnum (butlast (tl x))"

text \<open>A value is not empty, has no newline and does not end in whitespace.\<close>

definition valid_value :: "string \<Rightarrow> bool" where
  "valid_value x \<longleftrightarrow> x \<noteq> [] \<and> newline \<notin> set x \<and> \<not> is_space (last x)"











section \<open>Properties of the element tree\<close>

lemma map_result_Inr:
  "(\<And>x. x \<in> set xs \<Longrightarrow> f x = Inr (g x)) \<Longrightarrow> map_result f xs = Inr (map g xs)"
  by (induction xs) auto

lemma level_relevel [simp]: "level (relevel n e) = Some n"
  by (cases e) simp

lemma set_level_Element [simp]:
  "set_level l' (Element k l t v i cs) = Element k l' t v i cs"
  by (simp add: set_level_def)

lemma set_levels_downward_set_level:
  "set_levels_downward (set_level (Some n) e) = Inr (relevel n e)"
proof (induction e arbitrary: n)
  case (Element k l t v i cs)
  have "map_result (\<lambda>c. set_levels_downward (set_level (Some (n + 1)) c)) cs
        = Inr (map (relevel (n + 1)) cs)"
    by (rule map_result_Inr) (rule Element.IH)
  then show ?case by (simp add: set_levels_downward.simps)
qed

lemma set_levels_downward_relevel:
  "level e = Some n \<Longrightarrow> set_levels_downward e = Inr (relevel n e)"
  using set_levels_downward_set_level [of n e] by (cases e) simp

lemma child_levels_ok_relevel: "child_levels_ok (relevel n e)"
  by (induction e arbitrary: n) (simp add: list_all_iff)

subsection \<open>Single-child lookup\<close>

text \<open>
  C2, as the code has it: indexing an element by a tag raises \<^verbatim>\<open>IndexError\<close> when no
  child carries the tag, returns the child when exactly one does, and returns the list of
  all children carrying the tag, in document order, when several do.
\<close>

theorem getitem_cases:
  "getitem e t =
     (case filter (\<lambda>c. tag c = t) (child_elements e) of
        [] \<Rightarrow> Inl IndexError
      | [c] \<Rightarrow> Inr (One c)
      | c # d # cs \<Rightarrow> Inr (Many (c # d # cs)))"
  by (simp add: getitem_def Let_def split: list.splits)

text \<open>
  C2 as stated asks for an error when several children carry the tag. With two
  \<^verbatim>\<open>NAME\<close> children the lookup returns both in a list and raises nothing.
\<close>

theorem getitem_two_children_returns_list:
  "getitem (Element Individual (Some 0) ''INDI'' None (Some ''@I1@'')
              [Element Element_cls (Some 1) ''NAME'' (Some ''A /B/'') None [],
               Element Element_cls (Some 1) ''NAME'' (Some ''C /D/'') None []]) ''NAME''
   = Inr (Many [Element Element_cls (Some 1) ''NAME'' (Some ''A /B/'') None [],
                Element Element_cls (Some 1) ''NAME'' (Some ''C /D/'') None []])"
  by (simp add: getitem_def)

subsection \<open>Levels\<close>

text \<open>
  C8, as the code has it: \<^verbatim>\<open>set_levels_downward\<close> raises \<^verbatim>\<open>TypeError\<close> exactly when
  the root's level is not an integer; for every integer level, negative ones included, it
  keeps the root's level and the rest of the subtree and gives every child the level of
  its parent plus one.
\<close>

theorem set_levels_downward_levels:
  "set_levels_downward e = (case level e of None \<Rightarrow> Inl TypeError | Some n \<Rightarrow> Inr (relevel n e))
   \<and> (\<forall>e'. set_levels_downward e = Inr e' \<longrightarrow> level e' = level e \<and> child_levels_ok e')"
proof (cases "level e")
  case None
  then show ?thesis by (cases e) (simp add: set_levels_downward.simps)
next
  case (Some n)
  then show ?thesis
    by (simp add: set_levels_downward_relevel child_levels_ok_relevel)
qed

theorem set_levels_downward_levels_witness:
  "set_levels_downward (Element Individual (Some 0) ''INDI'' None None
       [Element Element_cls None ''NAME'' (Some ''A /B/'') None
          [Element Element_cls (Some 7) ''GIVN'' (Some ''A'') None []]])
   = Inr (Element Individual (Some 0) ''INDI'' None None
       [Element Element_cls (Some 1) ''NAME'' (Some ''A /B/'') None
          [Element Element_cls (Some 2) ''GIVN'' (Some ''A'') None []]])
   \<and> child_levels_ok (Element Individual (Some 0) ''INDI'' None None
       [Element Element_cls (Some 1) ''NAME'' (Some ''A /B/'') None
          [Element Element_cls (Some 2) ''GIVN'' (Some ''A'') None []]])"
  using set_levels_downward_levels [of "Element Individual (Some 0) ''INDI'' None None
       [Element Element_cls None ''NAME'' (Some ''A /B/'') None
          [Element Element_cls (Some 7) ''GIVN'' (Some ''A'') None []]]"]
  by simp

text \<open>
  C8 as stated asks for an error at a negative root level. At level \<open>-1\<close> the call
  succeeds and the child gets level \<open>0\<close>.
\<close>

theorem set_levels_downward_negative_level:
  "set_levels_downward (Element Individual (Some (- 1)) ''INDI'' None None
       [Element Element_cls None ''NAME'' None None []])
   = Inr (Element Individual (Some (- 1)) ''INDI'' None None
       [Element Element_cls (Some 0) ''NAME'' None None []])"
  by (simp add: set_levels_downward.simps)

subsection \<open>Notes\<close>

lemma full_text_loop_pieces:
  "list_all continuation cs \<Longrightarrow>
     full_text_loop cs result = Inr (result @ concat (map note_piece cs))"
  by (induction cs arbitrary: result) (auto simp: continuation_def note_piece_def)

lemma full_text_loop_other_tag:
  "\<not> list_all continuation cs \<Longrightarrow> full_text_loop cs result = Inl ValueError"
  by (induction cs arbitrary: result) (auto simp: continuation_def)

text \<open>
  With a value of its own, a note yields that value followed by what its children add,
  from left to right, and raises \<^verbatim>\<open>ValueError\<close> when a child has another tag.
\<close>

lemma full_text_with_value:
  "value_el n = Some v \<Longrightarrow>
     full_text n =
       (if list_all continuation (child_elements n)
        then Inr (v @ concat (map note_piece (child_elements n)))
        else Inl ValueError)"
  by (simp add: full_text_def or_empty_def full_text_loop_pieces full_text_loop_other_tag)

text \<open>The example of the specification: \<^verbatim>\<open>CONT\<close> adds a newline, \<^verbatim>\<open>CONC\<close> does not.\<close>

lemma full_text_example:
  "full_text (Element Note (Some 0) ''NOTE'' (Some ''Hello'') None
       [Element Element_cls (Some 1) ''CONT'' (Some ''World'') None [],
        Element Element_cls (Some 1) ''CONC'' (Some ''!'') None []])
   = Inr (''Hello'' @ [newline] @ ''World!'')"
  by (simp add: full_text_def or_empty_def)

text \<open>
  C6 at a note without a value of its own (the line \<^verbatim>\<open>1 NOTE\<close> followed by
  \<^verbatim>\<open>2 CONT World\<close>): every child is a \<^verbatim>\<open>CONT\<close>, and \<^verbatim>\<open>full_text\<close> raises
  \<^verbatim>\<open>TypeError\<close> where the text would be a newline followed by \<^verbatim>\<open>World\<close>.
\<close>

theorem full_text_valueless_note:
  "full_text (Element Note (Some 1) ''NOTE'' None None
       [Element Element_cls (Some 2) ''CONT'' (Some ''World'') None []]) = Inl TypeError"
  by (simp add: full_text_def)

section \<open>Properties of the views of an individual\<close>

subsection \<open>Also-known-as names\<close>

lemma aka_loop_entries:
  "aka_loop names acc =
     (case map_result aka_entry names of Inl e \<Rightarrow> Inl e | Inr rs \<Rightarrow> Inr (acc @ concat rs))"
  by (induction names arbitrary: acc) (auto simp: aka_entry_def split: sum.splits)

text \<open>
  C7, as the code has it: for an individual with two or more \<^verbatim>\<open>NAME\<close> children, \<^verbatim>\<open>aka\<close>
  goes through them in document order and returns the extracted names of those whose
  \<^verbatim>\<open>TYPE\<close> value is \<^verbatim>\<open>aka\<close> in any letter case (the empty list when none qualifies; the
  first exception of a \<^verbatim>\<open>TYPE\<close> lookup or of a name extraction ends the call). With
  exactly one \<^verbatim>\<open>NAME\<close> child the result is the empty list whatever that child is, and
  with none the lookup of \<^verbatim>\<open>NAME\<close> raises \<^verbatim>\<open>IndexError\<close>.
\<close>

theorem aka_names:
  "aka ind =
     (case get_list ind ''NAME'' of
        [] \<Rightarrow> Inl IndexError
      | [n] \<Rightarrow> Inr []
      | n # m # ns \<Rightarrow>
          (case map_result aka_entry (n # m # ns) of
             Inl e \<Rightarrow> Inl e
           | Inr rs \<Rightarrow> Inr (concat rs)))"
  by (simp add: aka_def getitem_def get_list_def Let_def aka_loop_entries
        split: list.splits sum.splits)

text \<open>
  C7 as stated includes an individual with exactly one \<^verbatim>\<open>NAME\<close> child. When that child
  has \<^verbatim>\<open>TYPE aka\<close> it qualifies, with extracted names \<^verbatim>\<open>("Jo", "Doe")\<close>, and \<^verbatim>\<open>aka\<close>
  returns the empty list.
\<close>

theorem aka_single_name_is_skipped:
  "aka (Element Individual (Some 0) ''INDI'' None (Some ''@I1@'')
         [Element Element_cls (Some 1) ''NAME'' (Some ''Jo /Doe/'') None
            [Element Element_cls (Some 2) ''TYPE'' (Some ''aka'') None []]]) = Inr []
   \<and> aka_entry (Element Element_cls (Some 1) ''NAME'' (Some ''Jo /Doe/'') None
            [Element Element_cls (Some 2) ''TYPE'' (Some ''aka'') None []])
       = Inr [(Some ''Jo'', Some ''Doe'')]"
  by (simp add: aka_def aka_entry_def getitem_def is_aka_def contains_def item_value_def
        lower_def lower_char_def upper_chars_def lower_chars_def name_parts_def strip_def
        is_space_def)

subsection \<open>Father and mother\<close>

lemma filter_result_isl:
  "isl (filter_result P xs) \<longleftrightarrow> (\<exists>x \<in> set xs. isl (P x))"
  by (induction xs) (auto split: sum.splits)

lemma filter_result_only_IndexError:
  "\<forall>x \<in> set xs. P x = Inl IndexError \<or> \<not> isl (P x)
   \<Longrightarrow> filter_result P xs = Inl IndexError \<or> \<not> isl (filter_result P xs)"
  by (induction xs) (auto split: sum.splits)

lemma filter_result_IndexError:
  "\<forall>x \<in> set xs. P x = Inl IndexError \<or> \<not> isl (P x) \<Longrightarrow> \<exists>x \<in> set xs. isl (P x)
   \<Longrightarrow> filter_result P xs = Inl IndexError"
  using filter_result_only_IndexError [of xs P] filter_result_isl [of P xs] by blast

lemma is_male_eq: "is_male = sex_is ''m''"
  by (rule ext) (simp add: is_male_def)

lemma is_female_eq: "is_female = sex_is ''f''"
  by (rule ext) (simp add: is_female_def)

lemma sex_is_no_SEX:
  "\<not> contains p ''SEX'' \<Longrightarrow>
     sex_is c p = (if klass p = Individual then Inl IndexError else Inl AttributeError)"
  by (simp add: sex_is_def sex_def getitem_def contains_def list_ex_iff filter_empty_conv)

lemma sex_is_readable:
  "klass p = Individual \<Longrightarrow> sex_readable p \<Longrightarrow> \<not> isl (sex_is c p)"
  by (auto simp: sex_is_def sex_readable_def split: sum.splits option.splits)

lemmas example_family_defs =
  example_file_def example_child_def example_family_def example_wife_def
  example_husband_def example_husband_two_sex_def

lemmas parent_lookup_defs =
  parents_def father_def mother_def contains_def getitem_def item_value_def get_by_id_def
  file_getitem_def partners_def get_list_def as_individual_def is_Spouse_def is_male_def
  is_female_def sex_is_def sex_def sex_readable_def

text \<open>
  C10, as the code has it: when the parents of an individual can be computed and one of
  them has no \<^verbatim>\<open>SEX\<close> child, \<^verbatim>\<open>father\<close> and \<^verbatim>\<open>mother\<close> both raise an exception and
  return neither a parent nor \<^verbatim>\<open>None\<close>, whatever the sex of the other parents. The
  exception is \<^verbatim>\<open>IndexError\<close> when every parent is an \<^verbatim>\<open>Individual\<close> whose \<^verbatim>\<open>SEX\<close>
  lookup, where it has such a child, yields a string.
\<close>

theorem father_mother_missing_sex:
  assumes "parents f ind = Inr ps" and "p \<in> set ps" and "\<not> contains p ''SEX''"
  shows "isl (father f ind) \<and> isl (mother f ind) \<and>
     ((\<forall>q \<in> set ps. klass q = Individual \<and> (contains q ''SEX'' \<longrightarrow> sex_readable q))
       \<longrightarrow> father f ind = Inl IndexError \<and> mother f ind = Inl IndexError)"
proof -
  have fails: "isl (sex_is c p)" for c
    using assms(3) by (simp add: sex_is_no_SEX)
  have some: "\<exists>x \<in> set ps. isl (sex_is c x)" for c
    using fails assms(2) by blast
  have "isl (filter_result (sex_is c) ps)" for c
    using some by (simp add: filter_result_isl)
  then obtain e1 e2 where "filter_result (sex_is ''m'') ps = Inl e1"
      and "filter_result (sex_is ''f'') ps = Inl e2"
    by (metis isl_def)
  then have 1: "isl (father f ind)" "isl (mother f ind)"
    using assms(1) by (simp_all add: father_def mother_def is_male_eq is_female_eq)
  have 2: "father f ind = Inl IndexError \<and> mother f ind = Inl IndexError"
    if ok: "\<forall>q \<in> set ps. klass q = Individual \<and> (contains q ''SEX'' \<longrightarrow> sex_readable q)"
  proof -
    have "\<forall>x \<in> set ps. sex_is c x = Inl IndexError \<or> \<not> isl (sex_is c x)" for c
      using ok sex_is_no_SEX sex_is_readable by metis
    then have "filter_result (sex_is c) ps = Inl IndexError" for c
      using some by (intro filter_result_IndexError) auto
    then show ?thesis
      using assms(1) by (simp add: father_def mother_def is_male_eq is_female_eq)
  qed
  show ?thesis using 1 2 by blast
qed

theorem father_mother_missing_sex_witness:
  "parents (example_file example_husband) example_child = Inr [example_husband, example_wife]
   \<and> example_wife \<in> set [example_husband, example_wife]
   \<and> \<not> contains example_wife ''SEX''
   \<and> klass example_husband = Individual \<and> sex_readable example_husband
   \<and> klass example_wife = Individual
   \<and> father (example_file example_husband) example_child = Inl IndexError
   \<and> mother (example_file example_husband) example_child = Inl IndexError"
proof -
  have 1: "parents (example_file example_husband) example_child
             = Inr [example_husband, example_wife]"
    by (simp add: example_family_defs parent_lookup_defs)
  have 2: "example_wife \<in> set [example_husband, example_wife]"
    by simp
  have 3: "\<not> contains example_wife ''SEX''"
    by (simp add: example_family_defs contains_def)
  have 4: "\<forall>q \<in> set [example_husband, example_wife].
         klass q = Individual \<and> (contains q ''SEX'' \<longrightarrow> sex_readable q)"
    by (simp add: example_family_defs parent_lookup_defs)
  have 5: "klass example_husband = Individual \<and> sex_readable example_husband
           \<and> klass example_wife = Individual"
    by (simp add: example_family_defs parent_lookup_defs)
  show ?thesis
    using father_mother_missing_sex [OF 1 2 3] 1 2 3 4 5 by blast
qed

text \<open>
  C10 as stated promises a lookup error. With a husband that has two \<^verbatim>\<open>SEX\<close> children
  and a wife that has none, the parents are computed, the wife has no \<^verbatim>\<open>SEX\<close> child, and
  both accessors raise \<^verbatim>\<open>AttributeError\<close>: the husband is examined first, and the list
  returned for his two \<^verbatim>\<open>SEX\<close> children has no attribute \<^verbatim>\<open>value\<close>.
\<close>

theorem father_mother_attribute_error:
  "parents (example_file example_husband_two_sex) example_child
     = Inr [example_husband_two_sex, example_wife]
   \<and> \<not> contains example_wife ''SEX''
   \<and> father (example_file example_husband_two_sex) example_child = Inl AttributeError
   \<and> mother (example_file example_husband_two_sex) example_child = Inl AttributeError"
  by (simp add: example_family_defs parent_lookup_defs)

section \<open>Properties of the parser\<close>

lemma parse_lines_place_all:
  "grammatical lines \<Longrightarrow> parse_lines st lines = place_all st (all_fields lines)"
proof (induction lines arbitrary: st)
  case Nil
  then show ?case by (simp add: all_fields_def)
next
  case (Cons l ls)
  then have g: "grammatical ls" and nl: "line_fields l \<noteq> Some None"
    by (simp_all add: grammatical_def)
  have af: "all_fields (l # ls) =
      (case line_fields l of Some (Some f) \<Rightarrow> [f] | _ \<Rightarrow> []) @ all_fields ls"
    by (simp add: all_fields_def)
  show ?case
  proof (cases "line_fields l")
    case None
    then show ?thesis using Cons.IH [OF g] af by (simp add: parse_line_def)
  next
    case (Some o1)
    with nl obtain f where "line_fields l = Some (Some f)" by (cases o1) auto
    then show ?thesis using Cons.IH [OF g] af
      by (simp add: parse_line_def split: sum.splits)
  qed
qed

lemma place_all_snoc:
  "place_all st (fs @ [f]) =
     (case place_all st fs of Inl e \<Rightarrow> Inl e | Inr st' \<Rightarrow> place_element st' f)"
  by (induction fs arbitrary: st) (auto split: sum.splits)

lemma most_recent_less: "most_recent xs l = Some a \<Longrightarrow> a < length xs"
  by (induction xs) (auto split: if_splits)

lemma parent_of_less: "a \<le> length levels \<Longrightarrow> parent_of levels a = Some p \<Longrightarrow> p < a"
  by (auto simp: parent_of_def split: if_splits dest!: most_recent_less)

lemma parent_of_not_ge: "c \<le> length levels \<Longrightarrow> c \<le> m \<Longrightarrow> parent_of levels c \<noteq> Some m"
  using parent_of_less [of c levels m] by auto

lemma nth_map_snoc [simp]: "(map g xs @ [y]) ! length xs = y"
  by (simp add: nth_append)

lemma parent_of_snoc_old [simp]:
  "a < length levels \<Longrightarrow> parent_of (levels @ [x]) a = parent_of levels a"
  by (simp add: parent_of_def nth_append)

lemma parent_of_snoc_new:
  "parent_of (levels @ [x]) (length levels) =
     (if x = 0 then None else most_recent (rev levels) (x - 1))"
  by (simp add: parent_of_def)

lemma orphan_snoc_old [simp]:
  "a < length levels \<Longrightarrow> orphan (levels @ [x]) a = orphan levels a"
  by (simp add: orphan_def nth_append)


lemma expected_obj_snoc_old:
  assumes "a < length fs"
  shows "expected_obj (fs @ [f]) a =
     (expected_obj fs a)\<lparr>o_child_elements := o_child_elements (expected_obj fs a) @
        (if parent_of (map level_of (fs @ [f])) (length fs) = Some a then [length fs] else [])\<rparr>"
proof -
  have ids: "id_of ((fs @ [f]) ! p) = id_of (fs ! p)"
    if "parent_of (map level_of fs) a = Some p" for p
  proof -
    have "p < a" using parent_of_less [of a "map level_of fs" p] assms that by simp
    then show ?thesis using assms by (simp add: nth_append)
  qed
  have olds: "filter (\<lambda>c. parent_of (map level_of fs @ [level_of f]) c = Some a) [0..<length fs]
        = filter (\<lambda>c. parent_of (map level_of fs) c = Some a) [0..<length fs]"
    by (rule filter_cong) auto
  show ?thesis
    using assms ids olds
    by (auto simp: expected_obj_def nth_append split: prod.splits option.splits)
qed

lemma expected_obj_snoc_new:
  "expected_obj (fs @ [(lv, i, t, v)]) (length fs) =
     \<lparr>o_klass = class_for_tag t, o_level = Some lv, o_tag = t, o_value = v, o_id = i,
      o_parent = parent_of (map level_of (fs @ [(lv, i, t, v)])) (length fs),
      o_parent_id =
        (case parent_of (map level_of (fs @ [(lv, i, t, v)])) (length fs) of
           None \<Rightarrow> None
         | Some p \<Rightarrow> id_of (fs ! p)),
      o_child_elements = []\<rparr>"
proof -
  let ?ls = "map level_of (fs @ [(lv, i, t, v)])"
  have "filter (\<lambda>c. parent_of ?ls c = Some (length fs)) [0..<length (fs @ [(lv, i, t, v)])] = []"
    by (auto simp: filter_empty_conv parent_of_not_ge)
  moreover have "id_of ((fs @ [(lv, i, t, v)]) ! p) = id_of (fs ! p)"
    if "parent_of ?ls (length fs) = Some p" for p
    using parent_of_less [of "length fs" ?ls p] that by (simp add: nth_append)
  ultimately show ?thesis
    by (auto simp: expected_obj_def split: option.splits)
qed

lemma most_recent_snoc_root:
  "most_recent (rev (levels @ [0])) = (most_recent (rev levels))(0 \<mapsto> length levels)"
  by (rule ext) simp

lemma most_recent_snoc_deeper:
  "lv \<noteq> 0 \<Longrightarrow> most_recent (rev (levels @ [lv]))
     = (\<lambda>l. if l < lv then most_recent (rev levels) l else None)(lv \<mapsto> length levels)"
  by (rule ext) auto

lemma latest_with_id_snoc:
  "latest_with_id (rev (ids @ [i])) =
     (if truthy i then (latest_with_id (rev ids))(the i \<mapsto> length ids)
      else latest_with_id (rev ids))"
  by (rule ext) (auto simp: truthy_def split: option.splits)

lemma place_element_step:
  assumes inv: "parsed fs st"
  shows "(orphan (map level_of (fs @ [f])) (length fs) \<longrightarrow> place_element st f = Inl KeyError)
       \<and> (\<not> orphan (map level_of (fs @ [f])) (length fs)
            \<longrightarrow> (\<exists>st'. place_element st f = Inr st' \<and> parsed (fs @ [f]) st'))"
proof -
  obtain lv i t v where f: "f = (lv, i, t, v)" by (cases f) auto
  let ?n = "length fs"
  let ?ls = "map level_of fs"
  have h: "heap st = map (expected_obj fs) [0..<?n]"
    and l2o: "level_to_obj st = most_recent (rev ?ls)"
    and roots: "root_elements (gfile st) = filter (\<lambda>a. level_of (fs ! a) = 0) [0..<?n]"
    and ptrs: "pointers (gfile st) = latest_with_id (rev (map id_of fs))"
    and nfi: "next_free_id (gfile st) = 1"
    using inv by (simp_all add: parsed_def)
  have len: "length (heap st) = ?n" using h by simp
  have par: "parent_of (map level_of (fs @ [f])) ?n
              = (if lv = 0 then None else most_recent (rev ?ls) (lv - 1))"
    using parent_of_snoc_new [of ?ls lv] by (simp add: f level_of_def)
  have roots': "filter (\<lambda>a. level_of ((fs @ [f]) ! a) = 0) [0..<length (fs @ [f])]
        = root_elements (gfile st) @ (if lv = 0 then [?n] else [])"
  proof -
    have "filter (\<lambda>a. level_of ((fs @ [f]) ! a) = 0) [0..<?n]
          = filter (\<lambda>a. level_of (fs ! a) = 0) [0..<?n]"
      by (rule filter_cong) (auto simp: nth_append)
    then show ?thesis by (simp add: roots f level_of_def)
  qed
  have ptrs': "latest_with_id (rev (map id_of (fs @ [f])))
        = (if truthy i then (pointers (gfile st))(the i \<mapsto> ?n) else pointers (gfile st))"
    using latest_with_id_snoc [of "map id_of fs" i] by (simp add: ptrs f id_of_def)
  show ?thesis
  proof (cases "lv = 0")
    case True
    have no: "\<not> orphan (map level_of (fs @ [f])) ?n"
      by (simp add: orphan_def f level_of_def True)
    have pe: "place_element st f =
        Inr \<lparr>heap = heap st @ [expected_obj (fs @ [f]) ?n],
             level_to_obj = (level_to_obj st)(0 \<mapsto> ?n),
             gfile = register_element (gfile st) ?n i (Some 0)\<rparr>"
      using par True
      by (simp add: place_element_def f line_to_element_def len expected_obj_snoc_new)
    have heap': "heap st @ [expected_obj (fs @ [f]) ?n]
          = map (expected_obj (fs @ [f])) [0..<length (fs @ [f])]"
      using par True by (simp add: h expected_obj_snoc_old)
    have l2o': "most_recent (rev (map level_of (fs @ [f])))
            = (level_to_obj st)(0 \<mapsto> ?n)"
      using most_recent_snoc_root [of ?ls] by (simp add: l2o f level_of_def True)
    have "parsed (fs @ [f]) (projr (place_element st f))"
      unfolding parsed_def pe l2o'
      using heap' roots' ptrs' nfi True
      by (simp add: register_element_def Let_def f level_of_def)
    then show ?thesis using no pe by simp
  next
    case False
    show ?thesis
    proof (cases "most_recent (rev ?ls) (lv - 1)")
      case None
      then have "orphan (map level_of (fs @ [f])) ?n"
        using par False by (simp add: orphan_def f level_of_def)
      moreover have "place_element st f = Inl KeyError"
        using None False by (simp add: place_element_def f l2o)
      ultimately show ?thesis by simp
    next
      case (Some p)
      have no: "\<not> orphan (map level_of (fs @ [f])) ?n"
        using par False Some by (simp add: orphan_def)
      have p: "p < ?n" using most_recent_less [OF Some] by simp
      have pe: "place_element st f =
        Inr \<lparr>heap = (heap st)[p := (heap st ! p)\<lparr>o_child_elements :=
                       o_child_elements (heap st ! p) @ [?n]\<rparr>]
                    @ [expected_obj (fs @ [f]) ?n],
             level_to_obj = (\<lambda>l. if l < lv then level_to_obj st l else None)(lv \<mapsto> ?n),
             gfile = register_element (gfile st) ?n i (Some lv)\<rparr>"
      proof -
        have "o_id (heap st ! p) = id_of (fs ! p)"
          using p by (simp add: h expected_obj_def id_of_def split: prod.splits)
        then show ?thesis
          using par False Some
          by (simp add: place_element_def f line_to_element_def len expected_obj_snoc_new l2o)
      qed
      have heap': "(heap st)[p := (heap st ! p)\<lparr>o_child_elements :=
                       o_child_elements (heap st ! p) @ [?n]\<rparr>]
                    @ [expected_obj (fs @ [f]) ?n]
          = map (expected_obj (fs @ [f])) [0..<length (fs @ [f])]"
      proof (rule nth_equalityI)
        show "length ((heap st)[p := (heap st ! p)\<lparr>o_child_elements :=
                       o_child_elements (heap st ! p) @ [?n]\<rparr>]
                    @ [expected_obj (fs @ [f]) ?n])
              = length (map (expected_obj (fs @ [f])) [0..<length (fs @ [f])])"
          by (simp add: len)
      next
        fix a
        assume "a < length ((heap st)[p := (heap st ! p)\<lparr>o_child_elements :=
                       o_child_elements (heap st ! p) @ [?n]\<rparr>]
                    @ [expected_obj (fs @ [f]) ?n])"
        then have a: "a \<le> ?n" by (simp add: len)
        show "((heap st)[p := (heap st ! p)\<lparr>o_child_elements :=
                       o_child_elements (heap st ! p) @ [?n]\<rparr>]
                    @ [expected_obj (fs @ [f]) ?n]) ! a
              = map (expected_obj (fs @ [f])) [0..<length (fs @ [f])] ! a"
        proof (cases "a = ?n")
          case True
          then show ?thesis by (simp add: nth_append len)
        next
          case False
          then have an: "a < ?n" using a by simp
          have "map (expected_obj (fs @ [f])) [0..<length (fs @ [f])] ! a
                = expected_obj (fs @ [f]) a"
            using an by (simp add: nth_append)
          then show ?thesis
            using an p par \<open>lv \<noteq> 0\<close> Some
            by (simp add: nth_append len nth_list_update h expected_obj_snoc_old)
        qed
      qed
      have l2o': "most_recent (rev (map level_of (fs @ [f])))
            = (\<lambda>l. if l < lv then level_to_obj st l else None)(lv \<mapsto> ?n)"
        using most_recent_snoc_deeper [OF False, of ?ls] unfolding l2o
        by (simp add: f level_of_def)
      have "parsed (fs @ [f]) (projr (place_element st f))"
        unfolding parsed_def pe l2o'
        using heap' roots' ptrs' nfi False
        by (simp add: register_element_def Let_def f level_of_def)
      then show ?thesis using no pe by simp
    qed
  qed
qed


lemma parsed_initial: "parsed [] initial_state"
  by (auto simp: parsed_def initial_state_def new_file_def)

lemma place_all_parsed:
  "((\<exists>a<length fs. orphan (map level_of fs) a) \<longrightarrow> place_all initial_state fs = Inl KeyError)
   \<and> (\<not> (\<exists>a<length fs. orphan (map level_of fs) a)
        \<longrightarrow> (\<exists>st. place_all initial_state fs = Inr st \<and> parsed fs st))"
proof (induction fs rule: rev_induct)
  case Nil
  then show ?case by (simp add: parsed_initial)
next
  case (snoc f fs)
  have ex: "(\<exists>a<length (fs @ [f]). orphan (map level_of (fs @ [f])) a)
        \<longleftrightarrow> (\<exists>a<length fs. orphan (map level_of fs) a)
             \<or> orphan (map level_of (fs @ [f])) (length fs)"
    by (auto simp: less_Suc_eq)
  show ?case
  proof (cases "\<exists>a<length fs. orphan (map level_of fs) a")
    case True
    then have "place_all initial_state fs = Inl KeyError" using snoc.IH by simp
    then show ?thesis using True ex by (simp add: place_all_snoc)
  next
    case False
    then obtain st where st: "place_all initial_state fs = Inr st" and inv: "parsed fs st"
      using snoc.IH by auto
    show ?thesis
      using place_element_step [OF inv, of f] False ex st
      by (auto simp: place_all_snoc)
  qed
qed

lemma parse_lines_append:
  "parse_lines st (xs @ ys) =
     (case parse_lines st xs of Inl e \<Rightarrow> Inl e | Inr st' \<Rightarrow> parse_lines st' ys)"
  by (induction xs arbitrary: st) (auto split: sum.splits)

lemma grammatical_readable_prefix: "grammatical (readable_prefix lines)"
  by (auto simp: grammatical_def readable_prefix_def list_all_iff dest: set_takeWhileD)

lemma readable_prefix_stops:
  "readable_prefix lines \<noteq> lines \<Longrightarrow>
     \<exists>bad rest. lines = readable_prefix lines @ bad # rest \<and> line_fields bad = Some None"
proof -
  let ?P = "\<lambda>l. line_fields l \<noteq> Some None"
  assume "readable_prefix lines \<noteq> lines"
  then have ne: "dropWhile ?P lines \<noteq> []"
    by (auto simp: readable_prefix_def)
  then obtain bad rest where d: "dropWhile ?P lines = bad # rest"
    by (cases "dropWhile ?P lines") auto
  have "\<not> ?P (hd (dropWhile ?P lines))" using ne by (rule hd_dropWhile)
  then have "line_fields bad = Some None" using d by simp
  moreover have "lines = readable_prefix lines @ bad # rest"
    using takeWhile_dropWhile_id [of ?P lines] d by (simp add: readable_prefix_def)
  ultimately show ?thesis by blast
qed

lemma dunder_parse_prefix:
  "dunder_parse lines =
     (case place_all initial_state (all_fields (readable_prefix lines)) of
        Inl e \<Rightarrow> Inl e
      | Inr st \<Rightarrow> if readable_prefix lines = lines then Inr st else Inl NotImplementedError)"
proof (cases "readable_prefix lines = lines")
  case True
  then have "grammatical lines" using grammatical_readable_prefix [of lines] by simp
  then show ?thesis
    using True by (simp add: dunder_parse_def parse_lines_place_all split: sum.splits)
next
  case False
  then obtain bad rest where l: "lines = readable_prefix lines @ bad # rest"
    and b: "line_fields bad = Some None"
    using readable_prefix_stops by blast
  have "parse_lines initial_state lines =
      (case parse_lines initial_state (readable_prefix lines) of
         Inl e \<Rightarrow> Inl e
       | Inr st' \<Rightarrow> parse_lines st' (bad # rest))"
    by (subst l) (rule parse_lines_append)
  then show ?thesis
    using False b grammatical_readable_prefix [of lines]
    by (simp add: dunder_parse_def parse_lines_place_all parse_line_def split: sum.splits)
qed

text \<open>
  C3: for every sequence of lines, the parser reads up to the first line that is neither
  blank nor grammatical. It fails, with \<^verbatim>\<open>KeyError\<close>, exactly when some line read at a
  level \<open>L > 0\<close> finds no element open at level \<open>L - 1\<close>; failing that, it fails with
  \<^verbatim>\<open>NotImplementedError\<close> when there is an ungrammatical line. Otherwise it returns a state
  in which the element of each line has the parent \<open>parent_of\<close> gives it (none at level 0,
  else the element most recently opened at level \<open>L - 1\<close> and not discarded since by a line
  of a level from 1 to \<open>L - 2\<close>), the children of each element are the elements that have
  it as parent, in input order, and the roots are the elements of level 0, in input order.
  A line of level 0 discards nothing, as in the code and in the algorithm of the
  specification.
\<close>

theorem parser_parent_assignment:
  "if \<exists>a<length (all_fields (readable_prefix lines)).
        orphan (map level_of (all_fields (readable_prefix lines))) a
   then dunder_parse lines = Inl KeyError
   else if readable_prefix lines \<noteq> lines
   then dunder_parse lines = Inl NotImplementedError
   else \<exists>st. dunder_parse lines = Inr st
          \<and> heap st = map (expected_obj (all_fields lines)) [0..<length (all_fields lines)]
          \<and> root_elements (gfile st)
              = filter (\<lambda>a. level_of (all_fields lines ! a) = 0)
                  [0..<length (all_fields lines)]"
  using place_all_parsed [of "all_fields (readable_prefix lines)"]
  by (auto simp: dunder_parse_prefix [of lines] parsed_def)

lemma parse_lines_grammatical: "parse_lines st lines = Inr st' \<Longrightarrow> grammatical lines"
proof (induction lines arbitrary: st)
  case Nil
  then show ?case by (simp add: grammatical_def)
next
  case (Cons l ls)
  then show ?case
    by (auto simp: grammatical_def parse_line_def split: sum.splits option.splits)
qed

lemma latest_with_id_Some:
  "latest_with_id (rev ids) k = Some a \<Longrightarrow> a < length ids \<and> ids ! a = Some k"
proof (induction ids rule: rev_induct)
  case Nil
  then show ?case by simp
next
  case (snoc i ids)
  then show ?case by (auto simp: nth_append split: if_splits)
qed

lemma latest_with_id_later:
  "a < length ids \<Longrightarrow> ids ! a = Some k \<Longrightarrow> k \<noteq> [] 
   \<Longrightarrow> \<exists>b. a \<le> b \<and> latest_with_id (rev ids) k = Some b"
proof (induction ids rule: rev_induct)
  case Nil
  then show ?case by simp
next
  case (snoc i ids)
  then show ?case
    by (cases "a = length ids") (auto simp: nth_append truthy_def intro: less_imp_le)
qed

lemma match_id_truthy: "match_id r = (Some x, r') \<Longrightarrow> x \<noteq> []"
  by (auto simp: match_id_def Let_def split: list.splits if_splits)

lemma line_fields_id: "line_fields l = Some (Some (lv, Some x, t, v)) \<Longrightarrow> x \<noteq> []"
  by (auto simp: line_fields_def line_format_match_def Let_def
        split: if_splits list.splits option.splits prod.splits dest: match_id_truthy)

lemma all_fields_id:
  "a < length (all_fields lines) \<Longrightarrow> id_of (all_fields lines ! a) = Some k \<Longrightarrow> k \<noteq> []"
proof -
  assume a: "a < length (all_fields lines)" and k: "id_of (all_fields lines ! a) = Some k"
  have "all_fields lines ! a \<in> set (all_fields lines)" using a by simp
  then obtain l where "line_fields l = Some (Some (all_fields lines ! a))"
    by (auto simp: all_fields_def split: option.splits)
  then show ?thesis
    using k line_fields_id [of l] by (cases "all_fields lines ! a") (auto simp: id_of_def)
qed

text \<open>
  C4, as the code has it: no id makes the parser fail. In every parsed document the
  pointer table binds an id to the last element that carries it; the element an id is
  bound to carries that id; and an element with an id finds its id bound to itself or to
  a later element with the same id.
\<close>

theorem pointer_table_last_wins:
  assumes "dunder_parse lines = Inr st"
  shows "pointers (gfile st) k = latest_with_id (rev (map id_of (all_fields lines))) k
     \<and> (\<forall>a. pointers (gfile st) k = Some a \<longrightarrow> a < length (heap st) \<and> o_id (heap st ! a) = Some k)
     \<and> (\<forall>a<length (heap st). o_id (heap st ! a) = Some k
           \<longrightarrow> (\<exists>b. a \<le> b \<and> pointers (gfile st) k = Some b))"
proof -
  let ?fs = "all_fields lines"
  have g: "grammatical lines"
    using assms parse_lines_grammatical by (auto simp: dunder_parse_def)
  then have pa: "place_all initial_state ?fs = Inr st"
    using assms by (simp add: dunder_parse_def parse_lines_place_all)
  then have "\<not> (\<exists>a<length ?fs. orphan (map level_of ?fs) a)"
    using place_all_parsed [of ?fs] by auto
  then have inv: "parsed ?fs st"
    using place_all_parsed [of ?fs] pa by auto
  then have h: "heap st = map (expected_obj ?fs) [0..<length ?fs]"
    and p: "pointers (gfile st) = latest_with_id (rev (map id_of ?fs))"
    by (simp_all add: parsed_def)
  have ids: "o_id (heap st ! a) = id_of (?fs ! a)" if "a < length ?fs" for a
    using that by (simp add: h expected_obj_def id_of_def split: prod.splits)
  have 1: "pointers (gfile st) k = latest_with_id (rev (map id_of ?fs)) k"
    by (simp add: p)
  have 2: "a < length (heap st) \<and> o_id (heap st ! a) = Some k"
    if "pointers (gfile st) k = Some a" for a
  proof -
    have "a < length ?fs \<and> map id_of ?fs ! a = Some k"
      using latest_with_id_Some [of "map id_of ?fs" k a] that by (simp add: p)
    then have "a < length ?fs" and "id_of (?fs ! a) = Some k" by auto
    then show ?thesis using ids [of a] by (simp add: h)
  qed
  have 3: "\<exists>b. a \<le> b \<and> pointers (gfile st) k = Some b"
    if "a < length (heap st)" and "o_id (heap st ! a) = Some k" for a
  proof -
    have a: "a < length ?fs" using that(1) by (simp add: h)
    then have "id_of (?fs ! a) = Some k" using that(2) ids by simp
    then have "map id_of ?fs ! a = Some k" and "k \<noteq> []"
      using a all_fields_id [of a lines k] by simp_all
    then show ?thesis
      using latest_with_id_later [of a "map id_of ?fs" k] a by (simp add: p)
  qed
  show ?thesis using 1 2 3 by blast
qed

subsection \<open>Values\<close>

lemma strip_last: "strip s \<noteq> [] \<Longrightarrow> \<not> is_space (last (strip s))"
proof -
  assume ne: "strip s \<noteq> []"
  let ?d = "dropWhile is_space (rev (dropWhile is_space s))"
  have "?d \<noteq> []" using ne by (simp add: strip_def)
  then have "\<not> is_space (hd ?d)" by (rule hd_dropWhile)
  moreover have "last (strip s) = hd ?d"
    using \<open>?d \<noteq> []\<close> by (simp add: strip_def last_rev)
  ultimately show ?thesis by simp
qed

lemma is_space_newline: "is_space newline"
  by (simp add: is_space_def newline_def)

lemma is_space_blank: "is_space CHR '' ''"
  by (simp add: is_space_def)

lemma match_id_decomp:
  "match_id r = (i, r') \<Longrightarrow> r = (case i of None \<Rightarrow> [] | Some x \<Rightarrow> x @ '' '') @ r'"
proof -
  assume m: "match_id r = (i, r')"
  show ?thesis
  proof (cases i)
    case None
    then show ?thesis using m
      by (auto simp: match_id_def Let_def split: list.splits if_splits)
  next
    case (Some x)
    then obtain q where r: "r = CHR ''@'' # q"
      and x: "x = CHR ''@'' # takeWhile is_alnum q @ ''@''"
      and t: "take 2 (dropWhile is_alnum q) = ''@ ''"
      and r': "r' = drop 2 (dropWhile is_alnum q)"
      using m by (auto simp: match_id_def Let_def split: list.splits if_splits)
    have "dropWhile is_alnum q = ''@ '' @ r'"
      using t r' append_take_drop_id [of 2 "dropWhile is_alnum q"] by simp
    then have "q = takeWhile is_alnum q @ ''@ '' @ r'"
      using takeWhile_dropWhile_id [of is_alnum q] by simp
    then show ?thesis using Some r x by simp
  qed
qed

lemma line_format_match_decomp:
  assumes m: "line_format_match s = Some (ds, i, t, v)"
    and ne: "s \<noteq> []" and nsp: "\<not> is_space (last s)"
  shows "s = ds @ '' '' @ (case i of None \<Rightarrow> [] | Some x \<Rightarrow> x @ '' '') @ t
               @ (case v of None \<Rightarrow> [] | Some x \<Rightarrow> '' '' @ x)
         \<and> ds = takeWhile is_digit s \<and> v \<noteq> Some []"
proof -
  have s0: "(if s \<noteq> [] \<and> last s = newline then butlast s else s) = s"
    using nsp is_space_newline by auto
  obtain r2 r3 where ds: "ds = takeWhile is_digit s"
    and r1: "dropWhile is_digit s = CHR '' '' # r2"
    and mid: "match_id r2 = (i, r3)"
    and t: "t = takeWhile is_tag_char r3"
    and v: "(dropWhile is_tag_char r3 = [] \<and> v = None)
            \<or> (\<exists>x. dropWhile is_tag_char r3 = CHR '' '' # x \<and> v = Some x)"
    using m unfolding line_format_match_def s0
    by (auto simp: Let_def split: if_splits list.splits prod.splits)
  have 1: "s = ds @ '' '' @ r2"
    using takeWhile_dropWhile_id [of is_digit s] r1 ds by simp
  have 2: "r2 = (case i of None \<Rightarrow> [] | Some x \<Rightarrow> x @ '' '') @ r3"
    using mid by (rule match_id_decomp)
  have "dropWhile is_tag_char r3 = (case v of None \<Rightarrow> [] | Some x \<Rightarrow> '' '' @ x)"
    using v by auto
  then have 3: "r3 = t @ (case v of None \<Rightarrow> [] | Some x \<Rightarrow> '' '' @ x)"
    unfolding t by (metis takeWhile_dropWhile_id)
  have eq: "s = ds @ '' '' @ (case i of None \<Rightarrow> [] | Some x \<Rightarrow> x @ '' '') @ t
               @ (case v of None \<Rightarrow> [] | Some x \<Rightarrow> '' '' @ x)"
    using 1 2 3 by simp
  have "v \<noteq> Some []"
  proof
    assume "v = Some []"
    then have "last s = CHR '' ''" using eq by simp
    then show False using nsp is_space_blank by simp
  qed
  then show ?thesis using eq ds by simp
qed

text \<open>
  C5, as the code has it: the parser matches the line after \<^verbatim>\<open>strip()\<close>. For every line it
  accepts, the stripped line is the level's digits, a space, the id with a space if there
  is one, the tag and, if there is a value, a space and the value: the value is the
  remainder of the stripped line after the tag, with its inner whitespace and without the
  whitespace that ended the line, and it is never the empty string. Formatting the parsed
  element gives the stripped line back when the digits are the decimal form of the level.
\<close>

theorem line_fields_value:
  assumes "line_fields line = Some (Some (lv, i, t, v))"
  shows "strip line = takeWhile is_digit (strip line) @ '' ''
             @ (case i of None \<Rightarrow> [] | Some x \<Rightarrow> x @ '' '') @ t
             @ (case v of None \<Rightarrow> [] | Some x \<Rightarrow> '' '' @ x)
         \<and> lv = int_of_digits (takeWhile is_digit (strip line))
         \<and> v \<noteq> Some []
         \<and> (str_int lv = takeWhile is_digit (strip line)
              \<longrightarrow> gedcom_line (Some lv) i t v = strip line)"
proof -
  let ?s = "strip line"
  have ne: "?s \<noteq> []"
    using assms by (auto simp: line_fields_def Let_def split: if_splits)
  have "(case line_format_match ?s of
           None \<Rightarrow> Some None
         | Some (ds, i', t', v') \<Rightarrow> Some (Some (int_of_digits ds, i', t', v')))
        = Some (Some (lv, i, t, v))"
    using assms ne by (simp add: line_fields_def Let_def)
  then obtain ds where m: "line_format_match ?s = Some (ds, i, t, v)" and lv: "lv = int_of_digits ds"
    by (auto split: option.splits)
  have d: "?s = ds @ '' '' @ (case i of None \<Rightarrow> [] | Some x \<Rightarrow> x @ '' '') @ t
               @ (case v of None \<Rightarrow> [] | Some x \<Rightarrow> '' '' @ x)"
    and ds: "ds = takeWhile is_digit ?s" and v: "v \<noteq> Some []"
    using line_format_match_decomp [OF m ne strip_last [OF ne]] by blast+
  have i: "i \<noteq> Some []"
    using assms line_fields_id [of line lv "[]" t v] by auto
  have g: "gedcom_line (Some lv) i t v = ?s" if "str_int lv = ds"
  proof -
    have "gedcom_line (Some lv) i t v = ds @ '' '' @ (case i of None \<Rightarrow> [] | Some x \<Rightarrow> x @ '' '') @ t
               @ (case v of None \<Rightarrow> [] | Some x \<Rightarrow> '' '' @ x)"
      using that i v
      by (auto simp: gedcom_line_def str_level_def truthy_def split: option.splits)
    then show ?thesis using d by simp
  qed
  show ?thesis unfolding ds [symmetric] using d v lv g by blast
qed

subsection \<open>Examples\<close>

lemmas line_defs =
  line_fields_def line_format_match_def match_id_def strip_def is_space_def is_digit_def
  is_alnum_def is_tag_char_def newline_def int_of_digits_def digit_val_def Let_def

lemmas parse_defs =
  dunder_parse_def parse_line_def place_element_def line_to_element_def
  register_element_def truthy_def initial_state_def new_file_def class_for_tag_def

lemma line_fields_INDI:
  "line_fields ''0 @I1@ INDI'' = Some (Some (0, Some ''@I1@'', ''INDI'', None))"
  by (simp add: line_defs)

lemma line_fields_FAM:
  "line_fields ''0 @I1@ FAM'' = Some (Some (0, Some ''@I1@'', ''FAM'', None))"
  by (simp add: line_defs)

lemma line_fields_NAME:
  "line_fields ''1 NAME John /Smith/'' = Some (Some (1, None, ''NAME'', Some ''John /Smith/''))"
  by (simp add: line_defs)

lemma line_fields_SEX:
  "line_fields ''1 SEX M'' = Some (Some (1, None, ''SEX'', Some ''M''))"
  by (simp add: line_defs)

lemma line_fields_DATE:
  "line_fields ''2 DATE 1900'' = Some (Some (2, None, ''DATE'', Some ''1900''))"
  by (simp add: line_defs)

lemma line_fields_TRLR:
  "line_fields ''0 TRLR'' = Some (Some (0, None, ''TRLR'', None))"
  by (simp add: line_defs)

lemma line_fields_blank: "line_fields '''' = None"
  by (simp add: line_defs)

lemmas line_fields_examples =
  line_fields_INDI line_fields_FAM line_fields_NAME line_fields_SEX line_fields_DATE
  line_fields_TRLR line_fields_blank

theorem parser_parent_assignment_witness:
  "grammatical [''0 @I1@ INDI'', ''1 NAME John /Smith/'', '''', ''1 SEX M'', ''0 TRLR'']
   \<and> \<not> isl (dunder_parse
          [''0 @I1@ INDI'', ''1 NAME John /Smith/'', '''', ''1 SEX M'', ''0 TRLR''])
   \<and> map o_parent (heap (projr (dunder_parse
          [''0 @I1@ INDI'', ''1 NAME John /Smith/'', '''', ''1 SEX M'', ''0 TRLR''])))
       = [None, Some 0, Some 0, None]
   \<and> map o_child_elements (heap (projr (dunder_parse
          [''0 @I1@ INDI'', ''1 NAME John /Smith/'', '''', ''1 SEX M'', ''0 TRLR''])))
       = [[1, 2], [], [], []]
   \<and> root_elements (gfile (projr (dunder_parse
          [''0 @I1@ INDI'', ''1 NAME John /Smith/'', '''', ''1 SEX M'', ''0 TRLR''])))
       = [0, 3]"
proof -
  let ?L = "[''0 @I1@ INDI'', ''1 NAME John /Smith/'', '''', ''1 SEX M'', ''0 TRLR'']"
  have g: "grammatical ?L"
    by (simp add: grammatical_def line_fields_examples)
  have af: "all_fields ?L =
      [(0, Some ''@I1@'', ''INDI'', None), (1, None, ''NAME'', Some ''John /Smith/''),
       (1, None, ''SEX'', Some ''M''), (0, None, ''TRLR'', None)]"
    by (simp add: all_fields_def line_fields_examples)
  have no: "\<not> (\<exists>a<length (all_fields ?L). orphan (map level_of (all_fields ?L)) a)"
    unfolding af
    by (auto simp: orphan_def parent_of_def level_of_def less_Suc_eq eval_nat_numeral)
  have rp: "readable_prefix ?L = ?L"
    by (simp add: readable_prefix_def line_fields_examples)
  obtain st where st: "dunder_parse ?L = Inr st"
    and h: "heap st = map (expected_obj (all_fields ?L)) [0..<length (all_fields ?L)]"
    and r: "root_elements (gfile st)
              = filter (\<lambda>a. level_of (all_fields ?L ! a) = 0) [0..<length (all_fields ?L)]"
    using parser_parent_assignment [of ?L] no unfolding rp by auto
  have up: "[0..<4] = [0, 1, 2, 3]"
    by (simp add: upt_rec)
  have "map o_parent (heap st) = [None, Some 0, Some 0, None]"
    unfolding h af by (simp add: up expected_obj_def parent_of_def level_of_def)
  moreover have "map o_child_elements (heap st) = [[1, 2], [], [], []]"
    unfolding h af by (simp add: up expected_obj_def parent_of_def level_of_def)
  moreover have "root_elements (gfile st) = [0, 3]"
    unfolding r af by (simp add: up level_of_def)
  ultimately show ?thesis using g st by simp
qed

text \<open>A line of level 2 right after a root: nothing is open at level 1.\<close>

lemma orphan_example: "dunder_parse [''0 @I1@ INDI'', ''2 DATE 1900''] = Inl KeyError"
  by (simp add: parse_defs line_fields_examples)

text \<open>
  A root discards nothing: the line of level 2 that follows the second root becomes a child
  of the \<^verbatim>\<open>SEX\<close> element of the first.
\<close>

lemma stale_parent_example:
  "map o_parent (heap (projr (dunder_parse
      [''0 @I1@ INDI'', ''1 SEX M'', ''0 TRLR'', ''2 DATE 1900''])))
     = [None, Some 0, None, Some 1]"
  by (simp add: parse_defs line_fields_examples)

theorem pointer_table_last_wins_witness:
  "dunder_parse [''0 @I1@ INDI'', ''1 SEX M'', ''0 @I1@ FAM'']
     = Inr (projr (dunder_parse [''0 @I1@ INDI'', ''1 SEX M'', ''0 @I1@ FAM'']))
   \<and> pointers (gfile (projr (dunder_parse [''0 @I1@ INDI'', ''1 SEX M'', ''0 @I1@ FAM''])))
        ''@I1@'' = Some 2
   \<and> o_id (heap (projr (dunder_parse [''0 @I1@ INDI'', ''1 SEX M'', ''0 @I1@ FAM''])) ! 2)
        = Some ''@I1@''"
proof -
  let ?L = "[''0 @I1@ INDI'', ''1 SEX M'', ''0 @I1@ FAM'']"
  have e: "dunder_parse ?L = Inr (projr (dunder_parse ?L))"
    by (simp add: parse_defs line_fields_examples)
  have af: "all_fields ?L =
      [(0, Some ''@I1@'', ''INDI'', None), (1, None, ''SEX'', Some ''M''),
       (0, Some ''@I1@'', ''FAM'', None)]"
    by (simp add: all_fields_def line_fields_examples)
  have l: "latest_with_id (rev (map id_of (all_fields ?L))) ''@I1@'' = Some 2"
    unfolding af by (simp add: id_of_def truthy_def)
  show ?thesis
    using pointer_table_last_wins [OF e, of "''@I1@''"] l e by auto
qed

text \<open>
  C4 as stated asks for a duplicate-pointer error. Two lines with the id \<^verbatim>\<open>@I1@\<close> parse
  without an error; the table binds the id to the second element, and the first element
  still carries it.
\<close>

theorem duplicate_id_is_accepted:
  "\<not> isl (dunder_parse [''0 @I1@ INDI'', ''0 @I1@ FAM''])
   \<and> pointers (gfile (projr (dunder_parse [''0 @I1@ INDI'', ''0 @I1@ FAM'']))) ''@I1@'' = Some 1
   \<and> o_id (heap (projr (dunder_parse [''0 @I1@ INDI'', ''0 @I1@ FAM''])) ! 0) = Some ''@I1@''"
  by (simp add: parse_defs line_fields_examples)

theorem line_fields_value_witness:
  "line_fields ''  1 NAME John  /Smith/  ''
     = Some (Some (1, None, ''NAME'', Some ''John  /Smith/''))
   \<and> strip ''  1 NAME John  /Smith/  '' = ''1 NAME John  /Smith/''
   \<and> str_int 1 = takeWhile is_digit (strip ''  1 NAME John  /Smith/  '')
   \<and> gedcom_line (Some 1) None ''NAME'' (Some ''John  /Smith/'')
       = strip ''  1 NAME John  /Smith/  ''"
proof -
  have lf: "line_fields ''  1 NAME John  /Smith/  ''
     = Some (Some (1, None, ''NAME'', Some ''John  /Smith/''))"
    by (simp add: line_defs)
  have s: "strip ''  1 NAME John  /Smith/  '' = ''1 NAME John  /Smith/''"
    by (simp add: strip_def is_space_def)
  have d: "str_int 1 = takeWhile is_digit (strip ''  1 NAME John  /Smith/  '')"
    unfolding s by (simp add: str_int_def str_nat.simps digit_char_def is_digit_def)
  show ?thesis
    using line_fields_value [OF lf] lf s d by simp
qed

text \<open>
  C5 as stated has the value verbatim, trailing spaces included. The line
  \<^verbatim>\<open>1 NOTE hello\<close> followed by two spaces matches the pattern with those spaces in the
  value; the parser stores \<^verbatim>\<open>hello\<close>, and formatting gives a line two characters shorter.
\<close>

theorem trailing_spaces_are_dropped:
  "line_format_match ''1 NOTE hello  '' = Some (''1'', None, ''NOTE'', Some ''hello  '')
   \<and> line_fields ''1 NOTE hello  '' = Some (Some (1, None, ''NOTE'', Some ''hello''))
   \<and> gedcom_line (Some 1) None ''NOTE'' (Some ''hello'') = ''1 NOTE hello''"
  by (simp add: line_defs gedcom_line_def str_level_def str_int_def str_nat.simps
        digit_char_def truthy_def)

section \<open>Properties of id allocation\<close>

lemma alloc_loop_unfold:
  "0 < k \<Longrightarrow> alloc_loop k ptrs prefix nfi =
     (let potential_id = ''@'' @ prefix @ str_int nfi @ ''@'' in
      if ptrs potential_id \<noteq> None then alloc_loop (k - 1) ptrs prefix (nfi + 1)
      else (nfi + 1, Some potential_id))"
  by (cases k) (auto simp: Let_def)

lemma alloc_loop_counter: "alloc_loop k ptrs prefix nfi = (nfi', r) \<Longrightarrow> nfi \<le> nfi'"
proof (induction k arbitrary: nfi)
  case 0
  then show ?case by simp
next
  case (Suc k)
  then show ?case by (fastforce simp: Let_def split: if_splits)
qed

lemma alloc_loop_found:
  "alloc_loop k ptrs prefix nfi = (nfi', Some i) \<Longrightarrow>
     nfi < nfi' \<and> i = ''@'' @ prefix @ str_int (nfi' - 1) @ ''@'' \<and> ptrs i = None
     \<and> (\<forall>m. nfi \<le> m \<and> m < nfi' - 1 \<longrightarrow> ptrs (''@'' @ prefix @ str_int m @ ''@'') \<noteq> None)"
proof (induction k arbitrary: nfi)
  case 0
  then show ?case by simp
next
  case (Suc k)
  show ?case
  proof (cases "ptrs (''@'' @ prefix @ str_int nfi @ ''@'') = None")
    case True
    then show ?thesis using Suc.prems by (auto simp: Let_def)
  next
    case False
    then have "alloc_loop k ptrs prefix (nfi + 1) = (nfi', Some i)"
      using Suc.prems by (simp add: Let_def)
    from Suc.IH [OF this]
    have 1: "nfi + 1 < nfi'" and 2: "i = ''@'' @ prefix @ str_int (nfi' - 1) @ ''@''"
      and 3: "ptrs i = None"
      and 4: "\<And>m. nfi + 1 \<le> m \<Longrightarrow> m < nfi' - 1
                \<Longrightarrow> ptrs (''@'' @ prefix @ str_int m @ ''@'') \<noteq> None"
      by blast+
    have "ptrs (''@'' @ prefix @ str_int m @ ''@'') \<noteq> None"
      if "nfi \<le> m" and "m < nfi' - 1" for m
    proof (cases "m = nfi")
      case True
      then show ?thesis using False by simp
    next
      case False
      then have "nfi + 1 \<le> m" using that(1) by simp
      then show ?thesis using 4 that(2) by blast
    qed
    then show ?thesis using 1 2 3 by simp
  qed
qed

lemma set_levels_downward_klass:
  "set_levels_downward e = Inr e' \<Longrightarrow> klass e' = klass e"
  by (cases e) (auto simp: set_levels_downward.simps split: option.splits sum.splits)

lemma next_free_id_register [simp]:
  "next_free_id (register_element f x i l) = next_free_id f"
  by (simp add: register_element_def Let_def)

lemma add_element_counter:
  "add_element f e = (f', r) \<Longrightarrow> next_free_id f \<le> next_free_id f'"
  by (auto simp: add_element_def Let_def
        split: option.splits if_splits sum.splits prod.splits dest: alloc_loop_counter)

lemma add_element_allocated:
  assumes "add_element f e = (f', Inr e')" and "level e = None"
  shows "next_free_id f < next_free_id f'
     \<and> id_el e' = Some (auto_id (klass e) (next_free_id f' - 1))
     \<and> pointers f (auto_id (klass e) (next_free_id f' - 1)) = None
     \<and> (klass e = Individual \<or> klass e = Family)
     \<and> (\<forall>m. next_free_id f \<le> m \<and> m < next_free_id f' - 1
            \<longrightarrow> pointers f (auto_id (klass e) m) \<noteq> None)"
proof -
  have k: "klass e = Individual \<or> klass e = Family"
    using assms by (auto simp: add_element_def split: if_splits)
  let ?pre = "if klass e = Individual then ''I'' else ''F''"
  obtain e1 nfi i where al: "alloc_loop 999999 (pointers f) ?pre (next_free_id f) = (nfi, Some i)"
    and e': "e' = set_id (Some i) e1"
    and f': "f' = register_element (f\<lparr>next_free_id := nfi\<rparr>) e' (id_el e') (level e')"
    using assms k
    by (auto simp: add_element_def Let_def split: sum.splits prod.splits option.splits if_splits)
  have nf: "next_free_id f' = nfi" using f' by simp
  have ie: "id_el e' = Some i" using e' by (simp add: set_id_def)
  show ?thesis
    using alloc_loop_found [OF al] k nf ie by (auto simp: auto_id_def)
qed


lemma add_elements_counter:
  "next_free_id self \<le> next_free_id (fst (add_elements self es))"
proof (induction es arbitrary: self)
  case Nil
  then show ?case by simp
next
  case (Cons e es)
  obtain self1 r where a: "add_element self e = (self1, r)" by (cases "add_element self e")
  obtain self2 rs where b: "add_elements self1 es = (self2, rs)"
    by (cases "add_elements self1 es")
  have "next_free_id self \<le> next_free_id self1" using a by (rule add_element_counter)
  also have "\<dots> \<le> next_free_id self2" using Cons.IH [of self1] b by simp
  finally show ?case using a b by simp
qed

lemma allocations_spec:
  "sorted_wrt (<) (map fst (allocations self es))
   \<and> (\<forall>(n, k, i, ptrs) \<in> set (allocations self es).
         next_free_id self \<le> n \<and> (k = Individual \<or> k = Family)
         \<and> i = Some (auto_id k n) \<and> ptrs (auto_id k n) = None)"
proof (induction es arbitrary: self)
  case Nil
  then show ?case by simp
next
  case (Cons e es)
  obtain self1 r where a: "add_element self e = (self1, r)" by (cases "add_element self e")
  have mono: "next_free_id self \<le> next_free_id self1" using a by (rule add_element_counter)
  have tl_sorted: "sorted_wrt (<) (map fst (allocations self1 es))"
    and tl: "\<And>n k i ptrs. (n, k, i, ptrs) \<in> set (allocations self1 es) \<Longrightarrow>
         next_free_id self1 \<le> n \<and> (k = Individual \<or> k = Family)
         \<and> i = Some (auto_id k n) \<and> ptrs (auto_id k n) = None"
    using Cons.IH [of self1] by auto
  show ?case
  proof (cases "level e = None \<and> \<not> isl r")
    case False
    then have "allocations self (e # es) = allocations self1 es" using a by auto
    then show ?thesis using tl_sorted tl mono by fastforce
  next
    case True
    then obtain e' where r: "r = Inr e'" by (cases r) auto
    have hd: "next_free_id self < next_free_id self1"
      "id_el e' = Some (auto_id (klass e) (next_free_id self1 - 1))"
      "pointers self (auto_id (klass e) (next_free_id self1 - 1)) = None"
      "klass e = Individual \<or> klass e = Family"
      using add_element_allocated [of self e self1 e'] a r True by auto
    have al: "allocations self (e # es) =
        (next_free_id self1 - 1, klass e, id_el e', pointers self) # allocations self1 es"
      using a r True by simp
    have "\<forall>n \<in> set (map fst (allocations self1 es)). next_free_id self1 - 1 < n"
      using tl by fastforce
    then have "sorted_wrt (<) (map fst (allocations self (e # es)))"
      using tl_sorted unfolding al by simp
    moreover have "next_free_id self \<le> n \<and> (k = Individual \<or> k = Family)
         \<and> i = Some (auto_id k n) \<and> ptrs (auto_id k n) = None"
      if "(n, k, i, ptrs) \<in> set (allocations self (e # es))" for n k i ptrs
    proof (cases "(n, k, i, ptrs) \<in> set (allocations self1 es)")
      case True
      then show ?thesis using tl [OF True] mono by auto
    next
      case False
      then have "(n, k, i, ptrs) = (next_free_id self1 - 1, klass e, id_el e', pointers self)"
        using that unfolding al by simp
      then show ?thesis using hd by auto
    qed
    ultimately show ?thesis by blast
  qed
qed

text \<open>
  C9: over every sequence of calls of \<^verbatim>\<open>add_element\<close> on a file, whether they return
  or raise, the counter \<^verbatim>\<open>next_free_id\<close> never decreases; the numbers of the ids
  allocated are strictly ascending and none is below the counter the sequence started
  with; and each allocated id is \<^verbatim>\<open>@I<n>@\<close> for an \<^verbatim>\<open>Individual\<close> or \<^verbatim>\<open>@F<n>@\<close> for a
  \<^verbatim>\<open>Family\<close>, and is not a key of the pointer table at the time of the call.
\<close>

theorem id_allocation:
  "next_free_id self \<le> next_free_id (fst (add_elements self es))
   \<and> sorted_wrt (<) (map fst (allocations self es))
   \<and> (\<forall>(n, k, i, ptrs) \<in> set (allocations self es).
         next_free_id self \<le> n \<and> (k = Individual \<or> k = Family)
         \<and> i = Some (auto_id k n) \<and> ptrs (auto_id k n) = None)"
  using add_elements_counter [of self es] allocations_spec [of self es] by blast

lemmas alloc_defs = add_element_def set_levels_downward.simps alloc_loop_unfold
  str_int_def str_nat.simps digit_char_def register_element_def truthy_def set_id_def Let_def


theorem id_allocation_witness:
  "map fst (allocations example_taken example_fresh) = [3, 4]
   \<and> map (fst \<circ> snd \<circ> snd) (allocations example_taken example_fresh) = [Some ''@I3@'', Some ''@F4@'']
   \<and> next_free_id example_taken = 1 \<and> next_free_id (fst (add_elements example_taken example_fresh)) = 5
   \<and> sorted_wrt (<) (map fst (allocations example_taken example_fresh))"
proof -
  have 1: "map fst (allocations example_taken example_fresh) = [3, 4]"
    by (simp add: example_taken_def example_fresh_def alloc_defs)
  have 2: "map (fst \<circ> snd \<circ> snd) (allocations example_taken example_fresh) = [Some ''@I3@'', Some ''@F4@'']"
    by (simp add: example_taken_def example_fresh_def alloc_defs)
  have 3: "next_free_id (fst (add_elements example_taken example_fresh)) = 5"
    by (simp add: example_taken_def example_fresh_def alloc_defs)
  show ?thesis
    using id_allocation [of example_taken example_fresh] 1 2 3 by (simp add: example_taken_def)
qed

section \<open>Serializing and parsing again\<close>

subsection \<open>The line of an element is read back\<close>




lemma foldl_digits_snoc:
  "foldl (\<lambda>a c. 10 * a + digit_val c) 0 (xs @ [c])
     = 10 * foldl (\<lambda>a c. 10 * a + digit_val c) 0 xs + digit_val c"
  by simp



















subsection \<open>The lines of a subtree build the subtree\<close>











subsection \<open>The round trip\<close>

lemma grammatical_Cons [simp]:
  "grammatical (l # ls) \<longleftrightarrow> line_fields l \<noteq> Some None \<and> grammatical ls"
  by (simp add: grammatical_def)

lemma grammatical_Nil [simp]: "grammatical []"
  by (simp add: grammatical_def)

lemma grammatical_append [simp]:
  "grammatical (xs @ ys) \<longleftrightarrow> grammatical xs \<and> grammatical ys"
  by (simp add: grammatical_def)



lemma all_fields_Nil [simp]: "all_fields [] = []"
  by (simp add: all_fields_def)

lemma all_fields_append [simp]: "all_fields (xs @ ys) = all_fields xs @ all_fields ys"
  by (simp add: all_fields_def)



lemma relevel_idem [simp]: "relevel d (relevel d' t) = relevel d t"
  by (induction t arbitrary: d d') simp












text \<open>
  Conversely, what the parser reads from a line is well-formed: well-formedness leaves out
  nothing that a parsed document can contain.
\<close>

lemma match_id_valid: "match_id r = (Some x, r') \<Longrightarrow> valid_pointer x"
proof -
  assume m: "match_id r = (Some x, r')"
  then obtain q where x: "x = CHR ''@'' # takeWhile is_alnum q @ ''@''"
    and ne: "takeWhile is_alnum q \<noteq> []"
    by (auto simp: match_id_def Let_def split: list.splits if_splits)
  have "list_all is_alnum (takeWhile is_alnum q)"
    by (auto simp: list_all_iff dest: set_takeWhileD)
  then show ?thesis
    using ne unfolding x valid_pointer_def by (cases "takeWhile is_alnum q") auto
qed

lemma line_fields_wf:
  assumes "line_fields line = Some (Some (lv, i, t, v))"
  shows "0 \<le> lv \<and> valid_tag t
     \<and> (case i of None \<Rightarrow> True | Some x \<Rightarrow> valid_pointer x)
     \<and> (case v of None \<Rightarrow> True | Some x \<Rightarrow> valid_value x)"
proof -
  let ?s = "strip line"
  have ne: "?s \<noteq> []"
    using assms by (auto simp: line_fields_def Let_def split: if_splits)
  have nsp: "\<not> is_space (last ?s)" using ne by (rule strip_last)
  have "(case line_format_match ?s of
           None \<Rightarrow> Some None
         | Some (ds, i', t', v') \<Rightarrow> Some (Some (int_of_digits ds, i', t', v')))
        = Some (Some (lv, i, t, v))"
    using assms ne by (simp add: line_fields_def Let_def)
  then obtain ds where m: "line_format_match ?s = Some (ds, i, t, v)" and lv: "lv = int_of_digits ds"
    by (auto split: option.splits)
  have s0: "(if ?s \<noteq> [] \<and> last ?s = newline then butlast ?s else ?s) = ?s"
    using nsp is_space_newline by auto
  obtain r2 r3 where mid: "match_id r2 = (i, r3)"
    and t: "t = takeWhile is_tag_char r3" "t \<noteq> []"
    and nl: "\<And>x. v = Some x \<Longrightarrow> newline \<notin> set x"
    using m unfolding line_format_match_def s0
    by (auto simp: Let_def split: if_splits list.splits prod.splits)
  have d: "?s = ds @ '' '' @ (case i of None \<Rightarrow> [] | Some x \<Rightarrow> x @ '' '') @ t
               @ (case v of None \<Rightarrow> [] | Some x \<Rightarrow> '' '' @ x)"
    and vne: "v \<noteq> Some []"
    using line_format_match_decomp [OF m ne nsp] by blast+
  have 1: "0 \<le> lv" using lv by (simp add: int_of_digits_def)
  have 2: "valid_tag t"
    using t by (auto simp: valid_tag_def list_all_iff dest: set_takeWhileD)
  have 3: "case i of None \<Rightarrow> True | Some x \<Rightarrow> valid_pointer x"
    using mid match_id_valid by (cases i) auto
  have 4: "case v of None \<Rightarrow> True | Some x \<Rightarrow> valid_value x"
  proof (cases v)
    case None
    then show ?thesis by simp
  next
    case (Some x)
    then have x: "x \<noteq> []" using vne by simp
    then have "last ?s = last x" by (subst d) (simp add: Some)
    then show ?thesis using Some x nl nsp by (simp add: valid_value_def)
  qed
  show ?thesis using 1 2 3 4 by simp
qed

text \<open>An empty value is not written, so it cannot come back.\<close>

lemma empty_value_is_not_written:
  "gedcom_line (Some 1) None ''NOTE'' (Some '''') = gedcom_line (Some 1) None ''NOTE'' None"
  by (simp add: gedcom_line_def truthy_def)


end
